theory Spec2Isabelle
  imports Complex_Main
begin

section \<open>The App component of src/index.tsx as an event-driven state machine\<close>

text \<open>
  The component is a single React function component. Its behaviour is modelled as
  \<^item> one record holding the \<open>useState\<close> variables, the \<open>useRef\<close> cells and the part of
    the browser the component talks to (pending timers, live geolocation watches, the
    siren, the vibration motor, outstanding asynchronous requests);
  \<^item> one function per handler of the source, taking and returning that record;
  \<^item> \<open>commit\<close>, the re-render that follows a handler: for every \<open>useEffect\<close> whose
    dependency array changed, the clean-up returned by the previous run (with the
    values that run had captured), then the effect body (with the new values);
  \<^item> \<open>step\<close>, one event of the trace: the handler followed by \<open>commit\<close>.
  Each event carries the clock value (\<open>Date.now()\<close>, milliseconds) at which it occurs.
  \<open>step\<close> applies a handler in any state, so every statement over all traces also
  covers the traces the user interface allows; \<open>enabled\<close> says which events the page
  on screen and the browser can deliver, and \<open>feasible\<close> that a trace consists of such
  events only. The state updates of one handler are batched into one re-render,
  and every handler runs with the values of the latest render, as React 18 does for a
  root made by \<open>createRoot\<close>; the additional mount and unmount of effects that
  \<open>StrictMode\<close> performs in a development build is not modelled.
\<close>

subsection \<open>Data\<close>

text \<open>The coordinates are only copied by the component, never computed with.\<close>

datatype position = Position (latitude: real) (longitude: real)

text \<open>
  What a pending timer will run. A closure is represented by the values it captured:
  the long-press callback captured \<open>activateEmergencyMode\<close>, hence its \<open>isEmergency\<close>;
  the countdown callback captured \<open>sharingEndTime\<close>.
\<close>

datatype callback = LongPressCb bool | TapWindowCb | SharingTickCb int

datatype timer = Timer (tid: nat) (due: int) (cb: callback)

datatype gesture = LongPress | QuadTap

text \<open>The three pages of \<open>view\<close>, and what the render puts on screen.\<close>

datatype page = Home | Tools | Chat

datatype screen = ActiveCall | FakeCall | ContactSelector | LocationSharing | ShareOptions | Page page

record app =
  \<comment> \<open>useState\<close>
  view :: page
  isEmergency :: bool
  location :: "position option"
  locationIdentity :: nat
  error :: "string option"
  isRecording :: bool
  showFakeCall :: bool
  showContactSelector :: bool
  isCallActive :: bool
  showSharingOptions :: bool
  isSharingLocation :: bool
  sharingEndTime :: "int option"
  remainingTime :: string
  volumeUpCount :: nat
  \<comment> \<open>useRef\<close>
  locationWatchIdRef :: "nat option"
  mapInstanceRef :: bool
  locationSharingTimerRef :: "nat option"
  volumeUpTimeoutRef :: "nat option"
  longPressTimeoutRef :: "nat option"
  recorderLive :: bool
  \<comment> \<open>browser\<close>
  timers :: "timer list"
  nextTimerId :: nat
  watches :: "(nat \<times> bool) list"
  nextWatchId :: nat
  sirenPlaying :: bool
  vibrating :: bool
  canVibrate :: bool
  leafletLoaded :: bool
  permissionPending :: bool
  pendingFix :: nat
  pendingCapture :: nat
  downloads :: nat
  \<comment> \<open>instrumentation\<close>
  classified :: "gesture list"

text \<open>
  \<open>locationIdentity\<close> stands for the identity of the object held in \<open>location\<close>: every
  \<open>setLocation({...})\<close> stores a new object, and the dependency array of the location
  effect compares by identity. \<open>watches\<close> lists the live \<open>watchPosition\<close> registrations,
  each with the \<open>isSharingLocation\<close> its error callback captured. \<open>canVibrate\<close> is
  \<open>'vibrate' in navigator\<close>; \<open>leafletLoaded\<close> is \<open>window.L\<close>.
  \<open>pendingFix\<close> and \<open>pendingCapture\<close> count the position requests of
  \<open>activateEmergencyMode\<close> and the media requests of \<open>startRecording\<close> that have not
  called back yet; \<open>permissionPending\<close> is the request made at mount. \<open>recorderLive\<close>
  says that \<open>mediaRecorderRef\<close> holds a recorder that is recording, and \<open>downloads\<close>
  counts the recordings offered for download.
  \<open>classified\<close> is not program state: it records, most recent first, each time the
  key handler reaches its quad-tap branch and each time the long-press callback runs.
\<close>

definition init :: "bool \<Rightarrow> bool \<Rightarrow> app" where
  "init cv mr =
     \<lparr> view = Home, isEmergency = False, location = None, locationIdentity = 0, error = None,
       isRecording = False, showFakeCall = False, showContactSelector = False,
       isCallActive = False, showSharingOptions = False, isSharingLocation = False,
       sharingEndTime = None, remainingTime = [], volumeUpCount = 0,
       locationWatchIdRef = None, mapInstanceRef = False, locationSharingTimerRef = None,
       volumeUpTimeoutRef = None, longPressTimeoutRef = None, recorderLive = False,
       timers = [], nextTimerId = 1, watches = [], nextWatchId = 1,
       sirenPlaying = False, vibrating = False, canVibrate = cv, leafletLoaded = mr,
       permissionPending = True, pendingFix = 0, pendingCapture = 0, downloads = 0,
       classified = [] \<rparr>"

subsection \<open>Browser primitives\<close>

text \<open>\<open>setTimeout\<close> and \<open>setInterval\<close>: a fresh handle, first due after the delay.\<close>

definition setTimer :: "callback \<Rightarrow> int \<Rightarrow> int \<Rightarrow> app \<Rightarrow> nat \<times> app" where
  "setTimer c delay now s =
     (nextTimerId s,
      s\<lparr>timers := timers s @ [Timer (nextTimerId s) (now + delay) c],
        nextTimerId := nextTimerId s + 1\<rparr>)"

definition clearTimer :: "nat \<Rightarrow> app \<Rightarrow> app" where
  "clearTimer h s = s\<lparr>timers := filter (\<lambda>t. tid t \<noteq> h) (timers s)\<rparr>"

text \<open>
  \<open>if (ref.current) clearTimeout(ref.current)\<close>. Timer handles are positive, so a
  stored handle is truthy.
\<close>

definition clearRef :: "nat option \<Rightarrow> app \<Rightarrow> app" where
  "clearRef r s = (case r of None \<Rightarrow> s | Some h \<Rightarrow> clearTimer h s)"

definition setLocation :: "position \<Rightarrow> app \<Rightarrow> app" where
  "setLocation p s = s\<lparr>location := Some p, locationIdentity := locationIdentity s + 1\<rparr>"

subsection \<open>Handlers\<close>

definition handleStopSharing :: "app \<Rightarrow> app" where
  "handleStopSharing s = s\<lparr>isSharingLocation := False, sharingEndTime := None, remainingTime := []\<rparr>"

text \<open>\<open>startRecording\<close> up to its \<open>await\<close>; the outcome arrives as a later event.\<close>

definition startRecording :: "app \<Rightarrow> app" where
  "startRecording s = s\<lparr>pendingCapture := pendingCapture s + 1\<rparr>"

definition onCapture :: "bool \<Rightarrow> app \<Rightarrow> app" where
  "onCapture ok s =
     (if pendingCapture s = 0 then s
      else let s1 = s\<lparr>pendingCapture := pendingCapture s - 1\<rparr>
           in if ok then s1\<lparr>recorderLive := True, isRecording := True\<rparr>
              else s1\<lparr>error := Some ''Could not start recording. Permissions may be denied.''\<rparr>)"

text \<open>
  \<open>activateEmergencyMode\<close>, up to the geolocation request. The first argument is the
  \<open>isEmergency\<close> the \<open>useCallback\<close> closure captured. The siren element is mounted with
  the component, so \<open>sirenAudioRef.current\<close> is set; \<open>play\<close> is taken to succeed.
\<close>

definition activateEmergencyMode :: "bool \<Rightarrow> bool \<Rightarrow> app \<Rightarrow> app" where
  "activateEmergencyMode em isDiscreet s =
     (if em then s
      else
        let s1 = (if \<not> isDiscreet
                  then s\<lparr>sirenPlaying := True,
                         vibrating := (if canVibrate s then True else vibrating s)\<rparr>
                  else s)
        in s1\<lparr>pendingFix := pendingFix s1 + 1\<rparr>)"

text \<open>The two callbacks of that request: \<open>Some p\<close> is a fix, \<open>None\<close> the error callback.\<close>

definition onActivationFix :: "position option \<Rightarrow> app \<Rightarrow> app" where
  "onActivationFix r s =
     (if pendingFix s = 0 then s
      else let s1 = s\<lparr>pendingFix := pendingFix s - 1\<rparr>
           in case r of
                Some p \<Rightarrow> startRecording ((setLocation p s1)\<lparr>isEmergency := True\<rparr>)
              | None \<Rightarrow>
                  s1\<lparr>error := Some ''Could not get location. Please ensure location services are enabled.''\<rparr>)"

definition inert :: "app \<Rightarrow> bool" where
  "inert s \<longleftrightarrow> isEmergency s \<or> isCallActive s \<or> showFakeCall s \<or> showContactSelector s
     \<or> isSharingLocation s \<or> showSharingOptions s"

text \<open>\<open>handleKeyDown\<close> for the key \<open>AudioVolumeUp\<close>; the argument is \<open>event.repeat\<close>.\<close>

definition handleKeyDown :: "bool \<Rightarrow> int \<Rightarrow> app \<Rightarrow> app" where
  "handleKeyDown repeat now s =
     (if inert s then s
      else if repeat then s
      else
        let (h1, s1) = setTimer (LongPressCb (isEmergency s)) 1000 now s;
            s2 = s1\<lparr>longPressTimeoutRef := Some h1\<rparr>;
            s3 = clearRef (volumeUpTimeoutRef s2) s2;
            newCount = volumeUpCount s + 1;
            s4 = s3\<lparr>volumeUpCount := newCount\<rparr>
        in if newCount \<ge> 4 then
             let s5 = clearRef (longPressTimeoutRef s4) s4;
                 s6 = (activateEmergencyMode (isEmergency s) True s5)
                        \<lparr>classified := QuadTap # classified s5\<rparr>
             in s6\<lparr>volumeUpCount := 0\<rparr>
           else
             let (h2, s5) = setTimer TapWindowCb 1500 now s4
             in s5\<lparr>volumeUpTimeoutRef := Some h2\<rparr>)"

definition handleKeyUp :: "app \<Rightarrow> app" where
  "handleKeyUp s = clearRef (longPressTimeoutRef s) s"

definition stopRecording :: "app \<Rightarrow> app" where
  "stopRecording s =
     (if recorderLive s
      then s\<lparr>recorderLive := False, isRecording := False, downloads := downloads s + 1\<rparr>
      else s)"

definition handleSos :: "bool \<Rightarrow> app \<Rightarrow> app" where
  "handleSos confirmed s = (if confirmed then activateEmergencyMode (isEmergency s) False s else s)"

definition handleStopEmergency :: "app \<Rightarrow> app" where
  "handleStopEmergency s =
     (let s1 = stopRecording (s\<lparr>isEmergency := False\<rparr>);
          s2 = s1\<lparr>sirenPlaying := False\<rparr>
      in if canVibrate s2 then s2\<lparr>vibrating := False\<rparr> else s2)"

text \<open>
  \<open>handleStartSharing\<close>: \<open>durationInMinutes\<close> is a number or \<open>null\<close>; the test
  \<open>if (durationInMinutes)\<close> takes \<open>null\<close> and \<open>0\<close> to the indefinite branch.
\<close>

definition handleStartSharing :: "int option \<Rightarrow> int \<Rightarrow> app \<Rightarrow> app" where
  "handleStartSharing durationInMinutes now s =
     (if location s = None
      then s\<lparr>error := Some ''Location not available. Please enable location services and try again.''\<rparr>
      else
        let s1 = s\<lparr>showSharingOptions := False, isSharingLocation := True\<rparr>
        in case durationInMinutes of
             Some d \<Rightarrow>
               if d \<noteq> 0 then s1\<lparr>sharingEndTime := Some (now + d * 60 * 1000)\<rparr>
               else s1\<lparr>sharingEndTime := None, remainingTime := ''Sharing indefinitely''\<rparr>
           | None \<Rightarrow> s1\<lparr>sharingEndTime := None, remainingTime := ''Sharing indefinitely''\<rparr>)"

text \<open>The button of the tools page: \<open>isLocationReady && setShowSharingOptions(true)\<close>.\<close>

definition isLocationReady :: "app \<Rightarrow> bool" where
  "isLocationReady s = (case location s of None \<Rightarrow> False | Some p \<Rightarrow> latitude p \<noteq> 0 \<and> longitude p \<noteq> 0)"

definition clickShareLocation :: "app \<Rightarrow> app" where
  "clickShareLocation s = (if isLocationReady s then s\<lparr>showSharingOptions := True\<rparr> else s)"

text \<open>\<open>requestPermissions\<close>, run once at mount: its three outcomes.\<close>

datatype permission = MediaDenied | LocationDenied | Located position

definition onPermission :: "permission \<Rightarrow> app \<Rightarrow> app" where
  "onPermission r s =
     (if \<not> permissionPending s then s
      else let s1 = s\<lparr>permissionPending := False\<rparr>
           in case r of
                MediaDenied \<Rightarrow>
                  s1\<lparr>error := Some ''Permissions for camera and microphone are required for full functionality.''\<rparr>
              | LocationDenied \<Rightarrow>
                  s1\<lparr>error := Some ''Location permission denied. Please enable it in your browser settings.''\<rparr>
              | Located p \<Rightarrow> setLocation p s1)"

subsection \<open>The countdown text\<close>

definition digit :: "nat \<Rightarrow> char" where
  "digit n = ''0123456789'' ! n"

text \<open>\<open>Number.prototype.toString\<close> on a non-negative integer.\<close>

fun toString :: "nat \<Rightarrow> string" where
  "toString n = (if n < 10 then [digit n] else toString (n div 10) @ [digit (n mod 10)])"

declare toString.simps [simp del]

definition padStart :: "nat \<Rightarrow> char \<Rightarrow> string \<Rightarrow> string" where
  "padStart n c str = replicate (n - length str) c @ str"

text \<open>The text built by the countdown tick from \<open>totalSeconds\<close>.\<close>

definition formatRemaining :: "nat \<Rightarrow> string" where
  "formatRemaining totalSeconds =
     (let hours = totalSeconds div 3600;
          minutes = (totalSeconds mod 3600) div 60;
          seconds = totalSeconds mod 60;
          timeString = (if hours > 0 then toString hours @ ''h '' else [])
      in timeString @ padStart 2 (CHR ''0'') (toString minutes) @ '':''
           @ padStart 2 (CHR ''0'') (toString seconds) @ '' remaining'')"

subsection \<open>Callbacks run by the browser\<close>

text \<open>The callback of the long-press timeout, with the \<open>isEmergency\<close> it captured.\<close>

definition longPressCallback :: "bool \<Rightarrow> app \<Rightarrow> app" where
  "longPressCallback em s =
     (let s1 = (activateEmergencyMode em False s)\<lparr>classified := LongPress # classified s\<rparr>;
          s2 = s1\<lparr>volumeUpCount := 0\<rparr>
      in clearRef (volumeUpTimeoutRef s2) s2)"

definition tapWindowCallback :: "app \<Rightarrow> app" where
  "tapWindowCallback s = s\<lparr>volumeUpCount := 0\<rparr>"

text \<open>
  The callback of the countdown interval, with the \<open>sharingEndTime\<close> it captured;
  \<open>now\<close> is what \<open>Date.now()\<close> returns.
\<close>

definition sharingTick :: "int \<Rightarrow> int \<Rightarrow> app \<Rightarrow> app" where
  "sharingTick e now s =
     (let remaining = e - now
      in if remaining \<le> 0 then handleStopSharing s
         else s\<lparr>remainingTime := formatRemaining (nat (remaining div 1000))\<rparr>)"

definition reschedule :: "nat \<Rightarrow> timer \<Rightarrow> timer" where
  "reschedule h u = (if tid u = h then Timer h (due u + 1000) (cb u) else u)"

text \<open>
  A timer that is still pending and due runs its callback. A timeout is consumed by
  running; the countdown interval is rescheduled one second later.
\<close>

definition fireTimer :: "int \<Rightarrow> nat \<Rightarrow> app \<Rightarrow> app" where
  "fireTimer now h s =
     (case find (\<lambda>t. tid t = h) (timers s) of
        None \<Rightarrow> s
      | Some t \<Rightarrow>
          (if now < due t then s
           else (case cb t of
                   LongPressCb em \<Rightarrow> longPressCallback em (clearTimer h s)
                 | TapWindowCb \<Rightarrow> tapWindowCallback (clearTimer h s)
                 | SharingTickCb e \<Rightarrow>
                     sharingTick e now (s\<lparr>timers := map (reschedule h) (timers s)\<rparr>))))"

text \<open>The callbacks of \<open>watchPosition\<close>; a cleared watch delivers nothing.\<close>

definition onWatchFix :: "nat \<Rightarrow> position \<Rightarrow> app \<Rightarrow> app" where
  "onWatchFix w p s = (if w \<in> fst ` set (watches s) then setLocation p s else s)"

definition onWatchError :: "nat \<Rightarrow> app \<Rightarrow> app" where
  "onWatchError w s =
     (case find (\<lambda>x. fst x = w) (watches s) of
        None \<Rightarrow> s
      | Some x \<Rightarrow>
          if snd x then s\<lparr>remainingTime := ''Live tracking paused. Sharing last known location.''\<rparr>
          else s\<lparr>error := Some ''Live location tracking failed. Sharing last known location.''\<rparr>)"

subsection \<open>Effects and the re-render\<close>

text \<open>
  The chain of conditionals in the component's \<open>return\<close>. The map container, to which
  \<open>mapRef\<close> is attached, is part of the sharing screen and of the home page during an
  emergency; \<open>mapRef.current\<close> is set exactly while one of them is on screen.
\<close>

definition screen :: "app \<Rightarrow> screen" where
  "screen s =
     (if isCallActive s then ActiveCall
      else if showFakeCall s then FakeCall
      else if showContactSelector s then ContactSelector
      else if isSharingLocation s then LocationSharing
      else if showSharingOptions s then ShareOptions
      else Page (view s))"

definition mapRefCurrent :: "app \<Rightarrow> bool" where
  "mapRefCurrent s \<longleftrightarrow> screen s = LocationSharing \<or> (screen s = Page Home \<and> isEmergency s)"

text \<open>The location effect: its body, and the clean-up with the values it captured.\<close>

definition locationEffect :: "app \<Rightarrow> app" where
  "locationEffect s =
     (if (isEmergency s \<or> isSharingLocation s) \<and> location s \<noteq> None then
        let s1 = (if mapRefCurrent s \<and> \<not> mapInstanceRef s \<and> leafletLoaded s
                  then s\<lparr>mapInstanceRef := True\<rparr> else s)
        in if locationWatchIdRef s1 = None
           then s1\<lparr>watches := watches s1 @ [(nextWatchId s1, isSharingLocation s1)],
                   locationWatchIdRef := Some (nextWatchId s1),
                   nextWatchId := nextWatchId s1 + 1\<rparr>
           else s1
      else s)"

definition locationCleanup :: "bool \<Rightarrow> bool \<Rightarrow> app \<Rightarrow> app" where
  "locationCleanup em sh s =
     (let s1 = (case locationWatchIdRef s of
                  None \<Rightarrow> s
                | Some w \<Rightarrow> s\<lparr>watches := filter (\<lambda>x. fst x \<noteq> w) (watches s),
                              locationWatchIdRef := None\<rparr>)
      in if \<not> em \<and> \<not> sh \<and> mapInstanceRef s1 then s1\<lparr>mapInstanceRef := False\<rparr> else s1)"

text \<open>The countdown effect. \<open>isSharingLocation && sharingEndTime\<close> is false for an end time 0.\<close>

definition sharingEffect :: "int \<Rightarrow> app \<Rightarrow> app" where
  "sharingEffect now s =
     (case sharingEndTime s of
        Some e \<Rightarrow>
          if isSharingLocation s \<and> e \<noteq> 0
          then let (h, s1) = setTimer (SharingTickCb e) 1000 now s
               in s1\<lparr>locationSharingTimerRef := Some h\<rparr>
          else s
      | None \<Rightarrow>
          if isSharingLocation s then s\<lparr>remainingTime := ''Sharing indefinitely''\<rparr> else s)"

definition sharingCleanup :: "app \<Rightarrow> app" where
  "sharingCleanup s = clearRef (locationSharingTimerRef s) s"

text \<open>
  The gesture effect only installs the two listeners; its clean-up removes them and
  clears both gesture timers. \<open>volumeUpCount\<close> is one of its dependencies, so the
  clean-up runs in the re-render after every key-down that was counted.
\<close>

definition gestureCleanup :: "app \<Rightarrow> app" where
  "gestureCleanup s =
     (let s1 = clearRef (volumeUpTimeoutRef s) s in clearRef (longPressTimeoutRef s1) s1)"

text \<open>
  The dependency arrays. \<open>handleStopSharing\<close> never changes; \<open>activateEmergencyMode\<close>
  changes exactly when \<open>isEmergency\<close> does.
\<close>

definition locationDeps :: "app \<Rightarrow> bool \<times> bool \<times> nat" where
  "locationDeps s = (isEmergency s, isSharingLocation s, locationIdentity s)"

definition sharingDeps :: "app \<Rightarrow> bool \<times> int option" where
  "sharingDeps s = (isSharingLocation s, sharingEndTime s)"

definition gestureDeps :: "app \<Rightarrow> nat \<times> bool \<times> bool \<times> bool \<times> bool \<times> bool \<times> bool" where
  "gestureDeps s = (volumeUpCount s, isEmergency s, isCallActive s, showFakeCall s,
     showContactSelector s, isSharingLocation s, showSharingOptions s)"

text \<open>
  The re-render after a handler: \<open>prev\<close> is the state the previous render saw, \<open>cur\<close> the
  state the handler left. All clean-ups of the changed effects run, in the order of
  declaration, then their bodies. The effect of the call timer is left out: it reads
  and writes only \<open>callTimer\<close> and its own interval.
\<close>

definition commit :: "int \<Rightarrow> app \<Rightarrow> app \<Rightarrow> app" where
  "commit now prev cur =
     (let c1 = (locationDeps prev \<noteq> locationDeps cur);
          c2 = (sharingDeps prev \<noteq> sharingDeps cur);
          c3 = (gestureDeps prev \<noteq> gestureDeps cur);
          a1 = (if c1 then locationCleanup (isEmergency prev) (isSharingLocation prev) cur else cur);
          a2 = (if c2 then sharingCleanup a1 else a1);
          a3 = (if c3 then gestureCleanup a2 else a2);
          b1 = (if c1 then locationEffect a3 else a3)
      in if c2 then sharingEffect now b1 else b1)"

subsection \<open>Events and runs\<close>

datatype event =
    KeyDown bool
  | KeyUp
  | TimerFires nat
  | Permission permission
  | ActivationFix "position option"
  | Capture bool
  | WatchFix nat position
  | WatchError nat
  | ClickSos bool
  | ClickStopEmergency
  | ClickShareLocation
  | ClickCancelSharing
  | ClickStartSharing "int option"
  | ClickStopSharing
  | ClickFakeCall
  | ClickCancelContact
  | ClickContact
  | ClickDeclineCall
  | ClickAcceptCall
  | ClickHangUp
  | Navigate page

fun handle :: "int \<Rightarrow> event \<Rightarrow> app \<Rightarrow> app" where
  "handle now (KeyDown repeat) s = handleKeyDown repeat now s"
| "handle now KeyUp s = handleKeyUp s"
| "handle now (TimerFires h) s = fireTimer now h s"
| "handle now (Permission r) s = onPermission r s"
| "handle now (ActivationFix r) s = onActivationFix r s"
| "handle now (Capture ok) s = onCapture ok s"
| "handle now (WatchFix w p) s = onWatchFix w p s"
| "handle now (WatchError w) s = onWatchError w s"
| "handle now (ClickSos confirmed) s = handleSos confirmed s"
| "handle now ClickStopEmergency s = handleStopEmergency s"
| "handle now ClickShareLocation s = clickShareLocation s"
| "handle now ClickCancelSharing s = s\<lparr>showSharingOptions := False\<rparr>"
| "handle now (ClickStartSharing d) s = handleStartSharing d now s"
| "handle now ClickStopSharing s = handleStopSharing s"
| "handle now ClickFakeCall s = s\<lparr>showContactSelector := True\<rparr>"
| "handle now ClickCancelContact s = s\<lparr>showContactSelector := False\<rparr>"
| "handle now ClickContact s = s\<lparr>showContactSelector := False, showFakeCall := True\<rparr>"
| "handle now ClickDeclineCall s = s\<lparr>showFakeCall := False\<rparr>"
| "handle now ClickAcceptCall s = s\<lparr>showFakeCall := False, isCallActive := True\<rparr>"
| "handle now ClickHangUp s = s\<lparr>isCallActive := False\<rparr>"
| "handle now (Navigate v) s = s\<lparr>view := v\<rparr>"

definition step :: "int \<times> event \<Rightarrow> app \<Rightarrow> app" where
  "step te s = commit (fst te) s (handle (fst te) (snd te) s)"

fun run :: "(int \<times> event) list \<Rightarrow> app \<Rightarrow> app" where
  "run [] s = s"
| "run (te # tes) s = run tes (step te s)"

text \<open>
  What can happen in a state at a clock value. The key listeners are on the window. A
  timer fires when it is pending and due; a callback of a request or of a watch needs
  the request outstanding or the watch live. A button can be pressed when the screen
  shows it: the SOS button and the Stop Emergency button are on the home page, the one
  without and the other with an emergency; the tools page has the Share Location
  button, disabled until the position is ready, and the Fake Call button; the sharing
  dialog offers 15, 30 and 60 minutes and an indefinite session; Stop Sharing is on
  the sharing screen once a position is known; the navigation bar is there with the
  three pages only.
\<close>

fun enabled :: "int \<Rightarrow> event \<Rightarrow> app \<Rightarrow> bool" where
  "enabled now (KeyDown repeat) s = True"
| "enabled now KeyUp s = True"
| "enabled now (TimerFires h) s =
     (case find (\<lambda>t. tid t = h) (timers s) of None \<Rightarrow> False | Some t \<Rightarrow> due t \<le> now)"
| "enabled now (Permission r) s = permissionPending s"
| "enabled now (ActivationFix r) s = (0 < pendingFix s)"
| "enabled now (Capture ok) s = (0 < pendingCapture s)"
| "enabled now (WatchFix w p) s = (w \<in> fst ` set (watches s))"
| "enabled now (WatchError w) s = (w \<in> fst ` set (watches s))"
| "enabled now (ClickSos confirmed) s = (screen s = Page Home \<and> \<not> isEmergency s)"
| "enabled now ClickStopEmergency s = (screen s = Page Home \<and> isEmergency s)"
| "enabled now ClickShareLocation s = (screen s = Page Tools \<and> isLocationReady s)"
| "enabled now ClickCancelSharing s = (screen s = ShareOptions)"
| "enabled now (ClickStartSharing d) s =
     (screen s = ShareOptions \<and> (d = Some 15 \<or> d = Some 30 \<or> d = Some 60 \<or> d = None))"
| "enabled now ClickStopSharing s = (screen s = LocationSharing \<and> location s \<noteq> None)"
| "enabled now ClickFakeCall s = (screen s = Page Tools)"
| "enabled now ClickCancelContact s = (screen s = ContactSelector)"
| "enabled now ClickContact s = (screen s = ContactSelector)"
| "enabled now ClickDeclineCall s = (screen s = FakeCall)"
| "enabled now ClickAcceptCall s = (screen s = FakeCall)"
| "enabled now ClickHangUp s = (screen s = ActiveCall)"
| "enabled now (Navigate v) s = (case screen s of Page p \<Rightarrow> True | _ \<Rightarrow> False)"

text \<open>A trace in the order of the clock, each event deliverable where it occurs.\<close>

fun feasible :: "(int \<times> event) list \<Rightarrow> app \<Rightarrow> bool" where
  "feasible [] s = True"
| "feasible (te # tes) s = (enabled (fst te) (snd te) s \<and> feasible tes (step te s))"

section \<open>Definitions used by the proofs\<close>

subsection \<open>What the re-render does to the timers and the watches\<close>

text \<open>
  \<open>dropTimer\<close> and \<open>dropWatch\<close> are \<open>clearTimeout\<close> and \<open>clearWatch\<close> on the lists alone;
  \<open>ticking\<close> and \<open>tracking\<close> are the guards of the countdown effect and of the location
  effect; \<open>commitTimers\<close> and \<open>commitWatches\<close> are the two lists after \<open>commit\<close>.
\<close>

definition dropTimer :: "nat option \<Rightarrow> timer list \<Rightarrow> timer list" where
  "dropTimer r ts = (case r of None \<Rightarrow> ts | Some h \<Rightarrow> filter (\<lambda>t. tid t \<noteq> h) ts)"

definition dropWatch :: "nat option \<Rightarrow> (nat \<times> bool) list \<Rightarrow> (nat \<times> bool) list" where
  "dropWatch r ws = (case r of None \<Rightarrow> ws | Some w \<Rightarrow> filter (\<lambda>x. fst x \<noteq> w) ws)"

definition ticking :: "app \<Rightarrow> bool" where
  "ticking s \<longleftrightarrow> isSharingLocation s \<and> (case sharingEndTime s of None \<Rightarrow> False | Some e \<Rightarrow> e \<noteq> 0)"

definition tracking :: "app \<Rightarrow> bool" where
  "tracking s \<longleftrightarrow> (isEmergency s \<or> isSharingLocation s) \<and> location s \<noteq> None"

definition commitTimers :: "int \<Rightarrow> app \<Rightarrow> app \<Rightarrow> timer list" where
  "commitTimers now p c =
     (let ts = (if sharingDeps p \<noteq> sharingDeps c then dropTimer (locationSharingTimerRef c) (timers c) else timers c);
          ts' = (if gestureDeps p \<noteq> gestureDeps c
                 then dropTimer (longPressTimeoutRef c) (dropTimer (volumeUpTimeoutRef c) ts) else ts)
      in if sharingDeps p \<noteq> sharingDeps c \<and> ticking c
         then ts' @ [Timer (nextTimerId c) (now + 1000) (SharingTickCb (the (sharingEndTime c)))]
         else ts')"

definition commitWatches :: "app \<Rightarrow> app \<Rightarrow> (nat \<times> bool) list" where
  "commitWatches p c =
     (if locationDeps p \<noteq> locationDeps c
      then dropWatch (locationWatchIdRef c) (watches c) @ (if tracking c then [(nextWatchId c, isSharingLocation c)] else [])
      else watches c)"

subsection \<open>The invariant of the reachable states\<close>

text \<open>
  \<^item> \<open>gestureInv\<close>: fewer than four taps are counted, and the long-press callback has
    never run;
  \<^item> \<open>freshInv\<close>: the handles kept in the two gesture refs have been issued already;
  \<^item> \<open>timerInv\<close>: the only timer ever pending between two events is the countdown
    interval of a session with a non-zero end time, and it is the one the ref holds;
  \<^item> \<open>watchInv\<close>: the live watches are exactly the one the ref holds, registered by the
    latest run of the location effect, and there is one exactly while an episode is
    active;
  \<^item> \<open>textInv\<close>: the status text is empty while no sharing session is active.
  \<open>frame s c\<close> describes a handler that went from \<open>s\<close> to \<open>c\<close> by setting state
  variables only.
\<close>

definition gestureInv :: "app \<Rightarrow> bool" where
  "gestureInv s \<longleftrightarrow> volumeUpCount s < 4 \<and> LongPress \<notin> set (classified s)"

definition freshInv :: "app \<Rightarrow> bool" where
  "freshInv s \<longleftrightarrow> (\<forall>h. volumeUpTimeoutRef s = Some h \<longrightarrow> h < nextTimerId s)
     \<and> (\<forall>h. longPressTimeoutRef s = Some h \<longrightarrow> h < nextTimerId s)"

definition timerInv :: "app \<Rightarrow> bool" where
  "timerInv s \<longleftrightarrow>
     (if ticking s
      then \<exists>h d. timers s = [Timer h d (SharingTickCb (the (sharingEndTime s)))]
              \<and> locationSharingTimerRef s = Some h
              \<and> volumeUpTimeoutRef s \<noteq> Some h \<and> longPressTimeoutRef s \<noteq> Some h
      else timers s = [])
   \<and> (sharingEndTime s \<noteq> None \<longrightarrow> isSharingLocation s)"

definition watchInv :: "app \<Rightarrow> bool" where
  "watchInv s \<longleftrightarrow>
     watches s = (case locationWatchIdRef s of None \<Rightarrow> [] | Some w \<Rightarrow> [(w, isSharingLocation s)])
   \<and> (locationWatchIdRef s \<noteq> None \<longleftrightarrow> isEmergency s \<or> isSharingLocation s)
   \<and> (isEmergency s \<or> isSharingLocation s \<longrightarrow> location s \<noteq> None)
   \<and> (\<forall>w. locationWatchIdRef s = Some w \<longrightarrow> w < nextWatchId s)"

definition textInv :: "app \<Rightarrow> bool" where
  "textInv s \<longleftrightarrow> (\<not> isSharingLocation s \<longrightarrow> remainingTime s = [])"

definition inv :: "app \<Rightarrow> bool" where
  "inv s \<longleftrightarrow> gestureInv s \<and> freshInv s \<and> timerInv s \<and> watchInv s \<and> textInv s"

definition frame :: "app \<Rightarrow> app \<Rightarrow> bool" where
  "frame s c \<longleftrightarrow>
     timers c = timers s \<and> nextTimerId c = nextTimerId s
   \<and> volumeUpTimeoutRef c = volumeUpTimeoutRef s \<and> longPressTimeoutRef c = longPressTimeoutRef s
   \<and> locationSharingTimerRef c = locationSharingTimerRef s
   \<and> watches c = watches s \<and> locationWatchIdRef c = locationWatchIdRef s \<and> nextWatchId c = nextWatchId s
   \<and> (\<not> isSharingLocation c \<longrightarrow> remainingTime c = [])
   \<and> volumeUpCount c = volumeUpCount s \<and> classified c = classified s
   \<and> (sharingEndTime c \<noteq> None \<longrightarrow> isSharingLocation c)
   \<and> (isEmergency c \<or> isSharingLocation c \<longrightarrow> location c \<noteq> None)"

subsection \<open>The countdown text in the words of the specification\<close>

text \<open>
  Minutes and seconds as two decimal digits each, separated by a colon, followed by
  \<open>remaining\<close>, with the hours and \<open>h\<close> in front exactly when the hours are not zero.
\<close>

definition twoDigits :: "nat \<Rightarrow> string" where
  "twoDigits n = [digit (n div 10), digit (n mod 10)]"

definition countdownSpec :: "nat \<Rightarrow> string" where
  "countdownSpec t =
     (let h = t div 3600; m = (t mod 3600) div 60; s = t mod 60
      in (if h \<noteq> 0 then toString h @ ''h '' else []) @ twoDigits m @ '':'' @ twoDigits s @ '' remaining'')"

subsection \<open>An activation together with the outcome of its position request\<close>


subsection \<open>Properties of traces\<close>



fun keyEvent :: "event \<Rightarrow> bool" where
  "keyEvent (KeyDown r) = True"
| "keyEvent KeyUp = True"
| "keyEvent (TimerFires h) = True"
| "keyEvent e = False"

fun isTap :: "event \<Rightarrow> bool" where
  "isTap (KeyDown r) = (\<not> r)"
| "isTap e = False"

definition downs :: "(int \<times> event) list \<Rightarrow> nat" where
  "downs tr = length (filter (\<lambda>te. isTap (snd te)) tr)"

fun spaced :: "int list \<Rightarrow> bool" where
  "spaced (a # b # r) = (b - a \<le> 1500 \<and> spaced (b # r))"
| "spaced r = True"

fun isKeyUp :: "event \<Rightarrow> bool" where
  "isKeyUp KeyUp = True"
| "isKeyUp e = False"

fun released :: "(int \<times> event) list \<Rightarrow> bool" where
  "released [] = True"
| "released (te # r) =
     ((isTap (snd te) \<and> list_ex (\<lambda>x. isTap (snd x)) r \<longrightarrow>
         (case find (\<lambda>x. isKeyUp (snd x)) r of None \<Rightarrow> False | Some x \<Rightarrow> fst x - fst te < 1000))
      \<and> released r)"


subsection \<open>Concrete runs\<close>

text \<open>
  \<open>bothActive\<close>: a position is granted at mount; the SOS button starts an emergency
  whose position request succeeds; the user then goes to the tools page, opens the
  sharing dialog and shares indefinitely. Both episodes are active in the resulting
  state.
  \<open>located\<close>: a position has been granted and the sharing dialog is open.
  \<open>sharing30\<close>: from there, a 30-minute session started at time 10, after its first
  tick.
  \<open>quietTrace\<close>: events other than the sharing buttons and watch errors.
  \<open>errorThenFix\<close>: the live watch of a session fails once and then delivers a fix.
  \<open>loudFailure\<close>: the SOS button is confirmed and the position request fails.
  \<open>taps3\<close>, \<open>taps4\<close>, \<open>taps8\<close>: presses of the gesture key 100 ms apart, each released
  after 50 ms.
\<close>

definition bothActiveTrace :: "(int \<times> event) list" where
  "bothActiveTrace = [(0, Permission (Located (Position 1 2))), (10, ClickSos True),
     (20, ActivationFix (Some (Position 1 2))), (25, Navigate Tools), (30, ClickShareLocation),
     (40, ClickStartSharing None)]"

definition bothActive :: app where
  "bothActive = run bothActiveTrace (init True True)"

definition locatedTrace :: "(int \<times> event) list" where
  "locatedTrace = [(0, Permission (Located (Position 1 2))), (3, Navigate Tools), (5, ClickShareLocation)]"

definition located :: app where
  "located = run locatedTrace (init True True)"

definition sharing30 :: app where
  "sharing30 = run [(1010, TimerFires 1)] (step (10, ClickStartSharing (Some 30)) located)"



definition loudFailure :: "(int \<times> event) list" where
  "loudFailure = [(10, ClickSos True), (20, ActivationFix None)]"

definition taps3 :: "(int \<times> event) list" where
  "taps3 = [(0, KeyDown False), (50, KeyUp), (100, KeyDown False), (150, KeyUp), (200, KeyDown False), (250, KeyUp)]"

definition taps4 :: "(int \<times> event) list" where
  "taps4 = taps3 @ [(300, KeyDown False), (350, KeyUp)]"

definition taps8 :: "(int \<times> event) list" where
  "taps8 = taps4 @ [(400, KeyDown False), (450, KeyUp), (500, KeyDown False), (550, KeyUp),
     (600, KeyDown False), (650, KeyUp), (700, KeyDown False), (750, KeyUp)]"

section \<open>Proofs\<close>

subsection \<open>The handlers and the re-render as record updates\<close>

lemma clearRef_upd: "clearRef r s = s\<lparr>timers := dropTimer r (timers s)\<rparr>"
  by (simp add: clearRef_def clearTimer_def dropTimer_def split: option.splits)

lemma locationCleanup_upd:
  "locationCleanup em sh s =
     s\<lparr>watches := dropWatch (locationWatchIdRef s) (watches s), locationWatchIdRef := None,
       mapInstanceRef := (mapInstanceRef s \<and> (em \<or> sh))\<rparr>"
  by (cases "locationWatchIdRef s") (simp_all add: locationCleanup_def dropWatch_def Let_def)

lemma locationEffect_upd:
  "locationEffect s =
     s\<lparr>mapInstanceRef := (mapInstanceRef s \<or> (tracking s \<and> mapRefCurrent s \<and> leafletLoaded s)),
       watches := (if tracking s \<and> locationWatchIdRef s = None
                   then watches s @ [(nextWatchId s, isSharingLocation s)] else watches s),
       nextWatchId := (if tracking s \<and> locationWatchIdRef s = None
                   then nextWatchId s + 1 else nextWatchId s),
       locationWatchIdRef := (if tracking s \<and> locationWatchIdRef s = None
                   then Some (nextWatchId s) else locationWatchIdRef s)\<rparr>"
  by (cases "tracking s"; cases "locationWatchIdRef s = None"; cases "mapRefCurrent s"; cases "leafletLoaded s";
      cases "mapInstanceRef s")
     (simp_all add: locationEffect_def tracking_def Let_def)

lemma sharingEffect_upd:
  "sharingEffect now s =
     s\<lparr>timers := (if ticking s then timers s @ [Timer (nextTimerId s) (now + 1000) (SharingTickCb (the (sharingEndTime s)))]
                  else timers s),
       nextTimerId := (if ticking s then nextTimerId s + 1 else nextTimerId s),
       locationSharingTimerRef := (if ticking s then Some (nextTimerId s) else locationSharingTimerRef s),
       remainingTime := (if isSharingLocation s \<and> sharingEndTime s = None then ''Sharing indefinitely''
                         else remainingTime s)\<rparr>"
  by (cases "sharingEndTime s"; cases "isSharingLocation s"; cases "the (sharingEndTime s) = 0")
     (simp_all add: sharingEffect_def ticking_def setTimer_def)

lemma sharingCleanup_upd: "sharingCleanup s = s\<lparr>timers := dropTimer (locationSharingTimerRef s) (timers s)\<rparr>"
  by (simp add: sharingCleanup_def clearRef_upd)

lemma gestureCleanup_upd:
  "gestureCleanup s = s\<lparr>timers := dropTimer (longPressTimeoutRef s) (dropTimer (volumeUpTimeoutRef s) (timers s))\<rparr>"
  by (simp add: gestureCleanup_def clearRef_upd Let_def)

lemma commit_upd:
  "commit now p c =
     c\<lparr>watches := commitWatches p c,
       locationWatchIdRef := (if locationDeps p \<noteq> locationDeps c
                              then (if tracking c then Some (nextWatchId c) else None)
                              else locationWatchIdRef c),
       nextWatchId := (if locationDeps p \<noteq> locationDeps c \<and> tracking c then nextWatchId c + 1 else nextWatchId c),
       mapInstanceRef := (if locationDeps p \<noteq> locationDeps c
                          then (mapInstanceRef c \<and> (isEmergency p \<or> isSharingLocation p)) \<or> (tracking c \<and> mapRefCurrent c \<and> leafletLoaded c)
                          else mapInstanceRef c),
       timers := commitTimers now p c,
       nextTimerId := (if sharingDeps p \<noteq> sharingDeps c \<and> ticking c then nextTimerId c + 1 else nextTimerId c),
       locationSharingTimerRef := (if sharingDeps p \<noteq> sharingDeps c \<and> ticking c then Some (nextTimerId c)
                                   else locationSharingTimerRef c),
       remainingTime := (if sharingDeps p \<noteq> sharingDeps c \<and> isSharingLocation c \<and> sharingEndTime c = None
                         then ''Sharing indefinitely'' else remainingTime c)\<rparr>"
  apply (cases "locationDeps p \<noteq> locationDeps c"; cases "sharingDeps p \<noteq> sharingDeps c"; cases "gestureDeps p \<noteq> gestureDeps c")
  apply (simp_all add: commit_def commitTimers_def commitWatches_def Let_def locationCleanup_upd locationEffect_upd sharingEffect_upd
      sharingCleanup_upd gestureCleanup_upd tracking_def ticking_def mapRefCurrent_def screen_def)
  done

lemma commit_fields:
  "watches (commit now p c) = commitWatches p c"
  "locationWatchIdRef (commit now p c) = (if locationDeps p \<noteq> locationDeps c
                              then (if tracking c then Some (nextWatchId c) else None)
                              else locationWatchIdRef c)"
  "nextWatchId (commit now p c) = (if locationDeps p \<noteq> locationDeps c \<and> tracking c then nextWatchId c + 1 else nextWatchId c)"
  "timers (commit now p c) = commitTimers now p c"
  "nextTimerId (commit now p c) = (if sharingDeps p \<noteq> sharingDeps c \<and> ticking c then nextTimerId c + 1 else nextTimerId c)"
  "locationSharingTimerRef (commit now p c) = (if sharingDeps p \<noteq> sharingDeps c \<and> ticking c then Some (nextTimerId c)
                                   else locationSharingTimerRef c)"
  "remainingTime (commit now p c) = (if sharingDeps p \<noteq> sharingDeps c \<and> isSharingLocation c \<and> sharingEndTime c = None
                         then ''Sharing indefinitely'' else remainingTime c)"
  "isEmergency (commit now p c) = isEmergency c"
  "isSharingLocation (commit now p c) = isSharingLocation c"
  "sharingEndTime (commit now p c) = sharingEndTime c"
  "location (commit now p c) = location c"
  "volumeUpCount (commit now p c) = volumeUpCount c"
  "classified (commit now p c) = classified c"
  "error (commit now p c) = error c"
  "volumeUpTimeoutRef (commit now p c) = volumeUpTimeoutRef c"
  "longPressTimeoutRef (commit now p c) = longPressTimeoutRef c"
  "showSharingOptions (commit now p c) = showSharingOptions c"
  "showFakeCall (commit now p c) = showFakeCall c"
  "showContactSelector (commit now p c) = showContactSelector c"
  "isCallActive (commit now p c) = isCallActive c"
  "pendingFix (commit now p c) = pendingFix c"
  "sirenPlaying (commit now p c) = sirenPlaying c"
  "vibrating (commit now p c) = vibrating c"
  "view (commit now p c) = view c"
  by (simp_all add: commit_upd)

lemma commit_preds:
  "ticking (commit now p c) = ticking c"
  "tracking (commit now p c) = tracking c"
  "inert (commit now p c) = inert c"
  by (simp_all add: ticking_def tracking_def inert_def commit_fields)

subsection \<open>The invariant holds in every reachable state\<close>

lemma inv_init: "inv (init cv mr)"
  by (simp add: inv_def gestureInv_def freshInv_def timerInv_def watchInv_def textInv_def init_def ticking_def)

lemma watchInv_commit:
  assumes "watchInv s" "watches c = watches s" "locationWatchIdRef c = locationWatchIdRef s"
    "nextWatchId c = nextWatchId s"
    "isEmergency c \<or> isSharingLocation c \<longrightarrow> location c \<noteq> None"
  shows "watchInv (commit now s c)"
proof (cases "locationDeps s = locationDeps c")
  case True
  then have "isEmergency c = isEmergency s" "isSharingLocation c = isSharingLocation s"
    by (simp_all add: locationDeps_def)
  with True assms show ?thesis
    by (simp add: watchInv_def commit_fields commitWatches_def split: option.splits)
next
  case False
  have "dropWatch (locationWatchIdRef s) (watches s) = []"
    using assms(1) by (cases "locationWatchIdRef s") (simp_all add: watchInv_def dropWatch_def)
  with False assms show ?thesis
    by (auto simp: watchInv_def commit_fields commitWatches_def tracking_def split: option.splits)
qed

lemma dropTimer_tick:
  "r \<noteq> Some h \<Longrightarrow> dropTimer r [Timer h d k] = [Timer h d k]"
  "dropTimer (Some h) [Timer h d k] = []"
  "dropTimer r [] = []"
  by (cases r; simp add: dropTimer_def)+

lemma timerInv_commit:
  assumes "timerInv s" "freshInv s" "timers c = timers s" "nextTimerId c = nextTimerId s"
    "volumeUpTimeoutRef c = volumeUpTimeoutRef s" "longPressTimeoutRef c = longPressTimeoutRef s"
    "locationSharingTimerRef c = locationSharingTimerRef s"
    "sharingEndTime c \<noteq> None \<longrightarrow> isSharingLocation c"
  shows "timerInv (commit now s c)"
proof (cases "sharingDeps s = sharingDeps c")
  case True
  then have eq: "isSharingLocation c = isSharingLocation s" "sharingEndTime c = sharingEndTime s" "ticking c = ticking s"
    by (simp_all add: sharingDeps_def ticking_def)
  show ?thesis
  proof (cases "ticking s")
    case True
    with assms(1) obtain h d where
      "timers s = [Timer h d (SharingTickCb (the (sharingEndTime s)))]" "locationSharingTimerRef s = Some h"
      "volumeUpTimeoutRef s \<noteq> Some h" "longPressTimeoutRef s \<noteq> Some h"
      by (auto simp: timerInv_def)
    with True \<open>sharingDeps s = sharingDeps c\<close> eq assms show ?thesis
      by (simp add: timerInv_def commit_fields commit_preds commitTimers_def dropTimer_tick Let_def)
  next
    case False
    with assms(1) have "timers s = []" by (simp add: timerInv_def)
    with False \<open>sharingDeps s = sharingDeps c\<close> eq assms show ?thesis
      by (simp add: timerInv_def commit_fields commit_preds commitTimers_def dropTimer_tick Let_def)
  qed
next
  case False
  have "dropTimer (locationSharingTimerRef s) (timers s) = []"
    using assms(1) by (cases "ticking s") (auto simp: timerInv_def dropTimer_tick)
  moreover have "volumeUpTimeoutRef s \<noteq> Some (nextTimerId s)" "longPressTimeoutRef s \<noteq> Some (nextTimerId s)"
    using assms(2) by (auto simp: freshInv_def)
  ultimately show ?thesis using False assms
    by (simp add: timerInv_def commit_fields commit_preds commitTimers_def dropTimer_tick Let_def)
qed

lemma freshInv_commit:
  assumes "freshInv c"
  shows "freshInv (commit now s c)"
  using assms by (auto simp: freshInv_def commit_fields)

lemma textInv_commit:
  assumes "textInv c"
  shows "textInv (commit now s c)"
  using assms by (simp add: textInv_def commit_fields)

lemma gestureInv_commit: "gestureInv (commit now s c) = gestureInv c"
  by (simp add: gestureInv_def commit_fields)

lemma inv_commit_frame:
  assumes "inv s" and "frame s c"
  shows "inv (commit now s c)"
proof -
  have "gestureInv (commit now s c)"
    using assms by (simp add: commit_fields inv_def frame_def gestureInv_def)
  moreover have "freshInv (commit now s c)"
    using assms by (intro freshInv_commit) (simp add: inv_def frame_def freshInv_def)
  moreover have "timerInv (commit now s c)"
    using assms by (intro timerInv_commit) (simp_all add: inv_def frame_def)
  moreover have "watchInv (commit now s c)"
    using assms by (intro watchInv_commit) (simp_all add: inv_def frame_def)
  moreover have "textInv (commit now s c)"
    using assms by (intro textInv_commit) (simp add: frame_def textInv_def)
  ultimately show ?thesis by (simp add: inv_def)
qed

lemma inv_facts:
  assumes "inv s"
  shows "sharingEndTime s \<noteq> None \<longrightarrow> isSharingLocation s"
    and "isEmergency s \<or> isSharingLocation s \<longrightarrow> location s \<noteq> None"
    and "\<not> isSharingLocation s \<longrightarrow> remainingTime s = []"
    and "watches s = (case locationWatchIdRef s of None \<Rightarrow> [] | Some w \<Rightarrow> [(w, isSharingLocation s)])"
  using assms by (simp_all add: inv_def timerInv_def watchInv_def textInv_def)

lemma frame_onPermission: "inv s \<Longrightarrow> frame s (onPermission r s)"
  using inv_facts[of s]
  by (cases r) (auto simp: frame_def onPermission_def setLocation_def Let_def)

lemma frame_onActivationFix: "inv s \<Longrightarrow> frame s (onActivationFix r s)"
  using inv_facts[of s]
  by (cases r) (auto simp: frame_def onActivationFix_def setLocation_def startRecording_def Let_def)

lemma frame_onCapture: "inv s \<Longrightarrow> frame s (onCapture ok s)"
  using inv_facts[of s]
  by (auto simp: frame_def onCapture_def Let_def)

lemma frame_onWatchFix: "inv s \<Longrightarrow> frame s (onWatchFix w p s)"
  using inv_facts[of s]
  by (auto simp: frame_def onWatchFix_def setLocation_def)

lemma frame_onWatchError: "inv s \<Longrightarrow> frame s (onWatchError w s)"
  using inv_facts[of s]
  by (auto simp: frame_def onWatchError_def split: option.splits)

lemma frame_handleSos: "inv s \<Longrightarrow> frame s (handleSos b s)"
  using inv_facts[of s]
  by (auto simp: frame_def handleSos_def activateEmergencyMode_def Let_def)

lemma frame_handleStopEmergency: "inv s \<Longrightarrow> frame s (handleStopEmergency s)"
  using inv_facts[of s]
  by (auto simp: frame_def handleStopEmergency_def stopRecording_def Let_def)

lemma frame_clickShareLocation: "inv s \<Longrightarrow> frame s (clickShareLocation s)"
  using inv_facts[of s]
  by (auto simp: frame_def clickShareLocation_def)

lemma frame_handleStartSharing: "inv s \<Longrightarrow> frame s (handleStartSharing d now s)"
  using inv_facts[of s]
  by (cases d) (auto simp: frame_def handleStartSharing_def Let_def)

lemma frame_handleStopSharing: "inv s \<Longrightarrow> frame s (handleStopSharing s)"
  using inv_facts[of s]
  by (auto simp: frame_def handleStopSharing_def)

lemma frame_flags:
  assumes "inv s"
  shows "frame s (s\<lparr>showSharingOptions := a\<rparr>)"
    and "frame s (s\<lparr>showContactSelector := a\<rparr>)"
    and "frame s (s\<lparr>showContactSelector := a, showFakeCall := b\<rparr>)"
    and "frame s (s\<lparr>showFakeCall := a\<rparr>)"
    and "frame s (s\<lparr>showFakeCall := a, isCallActive := b\<rparr>)"
    and "frame s (s\<lparr>isCallActive := a\<rparr>)"
    and "frame s (s\<lparr>view := v\<rparr>)"
  using inv_facts[OF assms] by (auto simp: frame_def)

lemma commit_prev_cong:
  assumes "locationDeps p = locationDeps q" "sharingDeps p = sharingDeps q" "gestureDeps p = gestureDeps q"
  shows "commit now p c = commit now q c"
proof -
  have "isEmergency p = isEmergency q" "isSharingLocation p = isSharingLocation q"
    using assms(1) by (simp_all add: locationDeps_def)
  with assms show ?thesis by (simp add: commit_upd commitTimers_def commitWatches_def)
qed

lemma commit_nodeps:
  assumes "locationDeps p = locationDeps c" "sharingDeps p = sharingDeps c" "gestureDeps p = gestureDeps c"
  shows "commit now p c = c"
  using assms by (simp add: commit_def)

lemma inv_timers_cases:
  assumes "inv s"
  obtains (idle) "\<not> ticking s" "timers s = []"
  | (tick) h d where "ticking s" "timers s = [Timer h d (SharingTickCb (the (sharingEndTime s)))]"
      "locationSharingTimerRef s = Some h" "volumeUpTimeoutRef s \<noteq> Some h" "longPressTimeoutRef s \<noteq> Some h"
  using assms by (cases "ticking s") (auto simp: inv_def timerInv_def)

lemma handleKeyUp_inv:
  assumes "inv s"
  shows "handleKeyUp s = s"
  using assms
  by (cases s rule: inv_timers_cases) (simp_all add: handleKeyUp_def clearRef_upd dropTimer_tick)

lemma inv_step_KeyUp: "inv s \<Longrightarrow> inv (step (now, KeyUp) s)"
  by (simp add: step_def handleKeyUp_inv commit_nodeps)

lemma handleKeyDown_quad:
  assumes "\<not> inert s" "4 \<le> volumeUpCount s + 1"
  shows "handleKeyDown False now s =
     s\<lparr>timers := dropTimer (Some (nextTimerId s))
                   (dropTimer (volumeUpTimeoutRef s) (timers s @ [Timer (nextTimerId s) (now + 1000) (LongPressCb False)])),
       nextTimerId := nextTimerId s + 1,
       longPressTimeoutRef := Some (nextTimerId s),
       pendingFix := pendingFix s + 1,
       classified := QuadTap # classified s,
       volumeUpCount := 0\<rparr>"
  using assms
  by (simp add: handleKeyDown_def setTimer_def clearRef_upd activateEmergencyMode_def inert_def Let_def)

lemma handleKeyDown_tap:
  assumes "\<not> inert s" "\<not> 4 \<le> volumeUpCount s + 1"
  shows "handleKeyDown False now s =
     s\<lparr>timers := dropTimer (volumeUpTimeoutRef s) (timers s @ [Timer (nextTimerId s) (now + 1000) (LongPressCb False)])
                   @ [Timer (nextTimerId s + 1) (now + 1500) TapWindowCb],
       nextTimerId := nextTimerId s + 2,
       longPressTimeoutRef := Some (nextTimerId s),
       volumeUpTimeoutRef := Some (nextTimerId s + 1),
       volumeUpCount := volumeUpCount s + 1\<rparr>"
  using assms
  by (simp add: handleKeyDown_def setTimer_def clearRef_upd inert_def Let_def)

lemma inv_not_inert:
  assumes "inv s" "\<not> inert s"
  shows "timers s = []" "\<not> ticking s" "\<not> isSharingLocation s" "\<not> isEmergency s" "sharingEndTime s = None"
  using assms by (auto simp: inv_def timerInv_def inert_def ticking_def)

lemma inv_step_KeyDown_quad:
  assumes "inv s" "\<not> inert s" "4 \<le> volumeUpCount s + 1"
  shows "inv (step (now, KeyDown False) s)"
proof -
  let ?c = "handleKeyDown False now s"
  note c = handleKeyDown_quad[OF assms(2,3), of now]
  note ni = inv_not_inert[OF assms(1,2)]
  have fr: "freshInv s" "watchInv s" "textInv s" using assms(1) by (simp_all add: inv_def)
  have tc: "timers ?c = []"
    using ni fr(1) by (cases "volumeUpTimeoutRef s") (simp_all add: c dropTimer_def freshInv_def)
  have "gestureInv (commit now s ?c)"
    using assms(1) by (simp add: gestureInv_def commit_fields c inv_def)
  moreover have "freshInv (commit now s ?c)"
    using fr(1) by (intro freshInv_commit) (auto simp: freshInv_def c)
  moreover have "timerInv (commit now s ?c)"
    using ni tc by (simp add: timerInv_def commit_fields commit_preds commitTimers_def Let_def sharingDeps_def
        dropTimer_tick ticking_def) (simp add: c)
  moreover have "watchInv (commit now s ?c)"
    using fr(2) by (intro watchInv_commit) (simp_all add: c watchInv_def)
  moreover have "textInv (commit now s ?c)"
    using fr(3) by (intro textInv_commit) (simp add: c textInv_def)
  ultimately show ?thesis by (simp add: inv_def step_def)
qed

lemma inv_step_KeyDown_tap:
  assumes "inv s" "\<not> inert s" "\<not> 4 \<le> volumeUpCount s + 1"
  shows "inv (step (now, KeyDown False) s)"
proof -
  let ?c = "handleKeyDown False now s"
  note c = handleKeyDown_tap[OF assms(2,3), of now]
  note ni = inv_not_inert[OF assms(1,2)]
  have fr: "freshInv s" "watchInv s" "textInv s" using assms(1) by (simp_all add: inv_def)
  have tc: "dropTimer (longPressTimeoutRef ?c) (dropTimer (volumeUpTimeoutRef ?c) (timers ?c)) = []"
    using ni fr(1) by (cases "volumeUpTimeoutRef s") (simp_all add: c dropTimer_def freshInv_def)
  have gd: "gestureDeps s \<noteq> gestureDeps ?c"
    by (simp add: gestureDeps_def c)
  have "gestureInv (commit now s ?c)"
    using assms(1,3) by (simp add: gestureInv_def commit_fields c inv_def)
  moreover have "freshInv (commit now s ?c)"
    using fr(1) by (intro freshInv_commit) (auto simp: freshInv_def c)
  moreover have "timerInv (commit now s ?c)"
    using ni tc gd by (simp add: timerInv_def commit_fields commit_preds commitTimers_def Let_def sharingDeps_def ticking_def)
      (simp add: c)
  moreover have "watchInv (commit now s ?c)"
    using fr(2) by (intro watchInv_commit) (simp_all add: c watchInv_def)
  moreover have "textInv (commit now s ?c)"
    using fr(3) by (intro textInv_commit) (simp add: c textInv_def)
  ultimately show ?thesis by (simp add: inv_def step_def)
qed

lemma step_KeyDown_noop:
  assumes "inert s \<or> r"
  shows "step (now, KeyDown r) s = s"
  using assms by (auto simp: step_def handleKeyDown_def commit_nodeps)

lemma inv_step_KeyDown: "inv s \<Longrightarrow> inv (step (now, KeyDown r) s)"
  apply (cases "inert s \<or> r")
   apply (simp add: step_KeyDown_noop)
  apply (cases "4 \<le> volumeUpCount s + 1")
   apply (simp_all add: inv_step_KeyDown_quad inv_step_KeyDown_tap)
  done

lemma inv_reschedule:
  assumes "inv s" "timers s = [Timer h d k]"
  shows "inv (s\<lparr>timers := [Timer h d' k]\<rparr>)"
  using assms by (auto simp: inv_def gestureInv_def freshInv_def timerInv_def watchInv_def textInv_def ticking_def split: option.splits)

lemma frame_sharingTick:
  assumes "inv s" "isSharingLocation s"
  shows "frame s (sharingTick e now s)"
proof (cases "e - now \<le> 0")
  case True
  then show ?thesis using frame_handleStopSharing[OF assms(1)] by (simp add: sharingTick_def)
next
  case False
  then show ?thesis using inv_facts[OF assms(1)] assms(2) by (simp add: sharingTick_def frame_def)
qed

lemma fireTimer_idle: "timers s = [] \<Longrightarrow> fireTimer now h s = s"
  by (simp add: fireTimer_def)

lemma fireTimer_tick:
  assumes "timers s = [Timer h0 d (SharingTickCb e)]"
  shows "fireTimer now h s =
     (if h = h0 \<and> d \<le> now then sharingTick e now (s\<lparr>timers := [Timer h0 (d + 1000) (SharingTickCb e)]\<rparr>) else s)"
  using assms by (auto simp: fireTimer_def reschedule_def)

lemma inv_step_TimerFires:
  assumes "inv s"
  shows "inv (step (now, TimerFires h) s)"
  using assms
proof (cases s rule: inv_timers_cases)
  case idle
  then show ?thesis using assms by (simp add: step_def fireTimer_idle commit_nodeps)
next
  case (tick h0 d)
  let ?e = "the (sharingEndTime s)"
  let ?s1 = "s\<lparr>timers := [Timer h0 (d + 1000) (SharingTickCb ?e)]\<rparr>"
  show ?thesis
  proof (cases "h = h0 \<and> d \<le> now")
    case True
    have i1: "inv ?s1" using assms tick(2) by (rule inv_reschedule)
    have "commit now s (sharingTick ?e now ?s1) = commit now ?s1 (sharingTick ?e now ?s1)"
      by (rule commit_prev_cong) (simp_all add: locationDeps_def sharingDeps_def gestureDeps_def)
    moreover have "isSharingLocation ?s1" using tick(1) by (simp add: ticking_def)
    then have "inv (commit now ?s1 (sharingTick ?e now ?s1))"
      using i1 by (intro inv_commit_frame frame_sharingTick)
    ultimately show ?thesis using True tick(2) by (simp add: step_def fireTimer_tick)
  next
    case False
    then show ?thesis using assms tick(2) by (auto simp: step_def fireTimer_tick commit_nodeps)
  qed
qed

lemma inv_step_event:
  assumes i: "inv s"
  shows "inv (step (now, e) s)"
proof (cases e)
  case (KeyDown r) then show ?thesis using i by (simp add: inv_step_KeyDown)
next
  case KeyUp then show ?thesis using i by (simp add: inv_step_KeyUp)
next
  case (TimerFires h) then show ?thesis using i by (simp add: inv_step_TimerFires)
qed (use i in \<open>simp_all add: step_def inv_commit_frame frame_onPermission frame_onActivationFix frame_onCapture
      frame_onWatchFix frame_onWatchError frame_handleSos frame_handleStopEmergency frame_clickShareLocation
      frame_handleStartSharing frame_handleStopSharing frame_flags\<close>)

lemma inv_step: "inv s \<Longrightarrow> inv (step te s)"
  by (cases te) (simp add: inv_step_event)

lemma inv_run: "inv s \<Longrightarrow> inv (run tr s)"
  by (induction tr arbitrary: s) (simp_all add: inv_step)

lemma inv_reachable: "inv (run tr (init cv mr))"
  by (rule inv_run) (rule inv_init)

subsection \<open>The countdown text\<close>

lemma toString_digit: "n < 10 \<Longrightarrow> toString n = [digit n]"
  by (simp add: toString.simps[of n])

lemma padStart_two:
  assumes "n < 100"
  shows "padStart 2 (CHR ''0'') (toString n) = twoDigits n"
proof (cases "n < 10")
  case True
  then show ?thesis by (simp add: padStart_def toString.simps[of n] twoDigits_def digit_def)
next
  case False
  with assms have "n div 10 < 10" by simp
  with False show ?thesis
    by (simp add: padStart_def toString.simps[of n] toString.simps[of "n div 10"] twoDigits_def)
qed

text \<open>
  Claim C7. The countdown formatter maps 3661 remaining seconds to \<open>1h 01:01 remaining\<close>
  and 59 seconds to \<open>00:59 remaining\<close>; for every number of seconds its result is the
  text of the specification: two-digit minutes and seconds, and the hours prefix
  exactly when the hours are not zero.
\<close>

theorem countdown_format:
  "formatRemaining 3661 = ''1h 01:01 remaining''
   \<and> formatRemaining 59 = ''00:59 remaining''
   \<and> (\<forall>t. formatRemaining t = countdownSpec t)"
proof -
  have g: "formatRemaining t = countdownSpec t" for t
  proof -
    have "(t mod 3600) div 60 < 100" "t mod 60 < 100"
      by (simp_all add: less_mult_imp_div_less) 
    then show ?thesis
      by (simp add: formatRemaining_def countdownSpec_def Let_def padStart_two)
  qed
  have "countdownSpec 3661 = ''1h 01:01 remaining''"
    by (simp add: countdownSpec_def twoDigits_def digit_def toString_digit Let_def)
  moreover have "countdownSpec 59 = ''00:59 remaining''"
    by (simp add: countdownSpec_def twoDigits_def digit_def Let_def)
  ultimately show ?thesis using g by simp
qed

subsection \<open>Emergency activation\<close>





text \<open>
  Claim C2. The claim asks that an activation whose position request fails leaves the
  episode idle, surfaces an error, can be retried and retains no partial activation
  state. The code does not meet the last part for a loud activation. After the SOS
  button has been confirmed and the position request has failed, which a user can do
  in the initial state, the episode is idle and the error message is set, but the
  siren and the vibration started before the request are still on; the Stop Emergency
  button, whose handler silences both, is not on screen.
\<close>

theorem failed_loud_activation_keeps_alarm:
  "feasible loudFailure (init True True) \<and> sorted (map fst loudFailure)
   \<and> \<not> sirenPlaying (init True True) \<and> \<not> vibrating (init True True)
   \<and> \<not> isEmergency (run loudFailure (init True True))
   \<and> error (run loudFailure (init True True))
        = Some ''Could not get location. Please ensure location services are enabled.''
   \<and> sirenPlaying (run loudFailure (init True True))
   \<and> vibrating (run loudFailure (init True True))
   \<and> \<not> enabled 30 ClickStopEmergency (run loudFailure (init True True))
   \<and> \<not> sirenPlaying (handleStopEmergency (run loudFailure (init True True)))
   \<and> \<not> vibrating (handleStopEmergency (run loudFailure (init True True)))"
  by code_simp




subsection \<open>The position watch\<close>

lemma bothActive_eval:
  "isEmergency bothActive" "isSharingLocation bothActive" "locationWatchIdRef bothActive = Some 2"
  "watches bothActive = [(2, True)]" "error bothActive = None" "nextWatchId bothActive = 3"
  "remainingTime bothActive = ''Sharing indefinitely''"
  by code_simp+

lemma bothActive_reach: "bothActive = run bothActiveTrace (init True True)"
  by (rule bothActive_def)

lemma handleStopEmergency_upd:
  "handleStopEmergency s =
     s\<lparr>isEmergency := False, recorderLive := False, isRecording := (isRecording s \<and> \<not> recorderLive s),
       downloads := (if recorderLive s then downloads s + 1 else downloads s),
       sirenPlaying := False, vibrating := (vibrating s \<and> \<not> canVibrate s)\<rparr>"
  by (cases "recorderLive s"; cases "canVibrate s") (simp_all add: handleStopEmergency_def stopRecording_def Let_def)

lemma inv_watch:
  assumes "inv s"
  shows "watches s = (case locationWatchIdRef s of None \<Rightarrow> [] | Some w \<Rightarrow> [(w, isSharingLocation s)])"
    and "locationWatchIdRef s \<noteq> None \<longleftrightarrow> isEmergency s \<or> isSharingLocation s"
    and "isEmergency s \<or> isSharingLocation s \<longrightarrow> location s \<noteq> None"
    and "\<And>w. locationWatchIdRef s = Some w \<Longrightarrow> w < nextWatchId s"
  using assms by (simp_all add: inv_def watchInv_def)

text \<open>
  Claim C9, as the code has it. On an error of the live watch the position is kept and
  the watch stays registered. The notice depends on the active consumer: while the
  sharing session is active, alone or together with the emergency episode, the
  sharing wording is put into the status text and the error message is left as it is;
  while only the emergency episode is active, the emergency wording is put into the
  error message.
\<close>

theorem watch_error_notice:
  assumes "s = run tr (init cv mr)" and "locationWatchIdRef s = Some w"
  shows "location (step (now, WatchError w) s) = location s
     \<and> watches (step (now, WatchError w) s) = watches s
     \<and> (isSharingLocation s \<longrightarrow>
          remainingTime (step (now, WatchError w) s) = ''Live tracking paused. Sharing last known location.''
          \<and> error (step (now, WatchError w) s) = error s)
     \<and> (\<not> isSharingLocation s \<longrightarrow> isEmergency s
          \<and> error (step (now, WatchError w) s) = Some ''Live location tracking failed. Sharing last known location.''
          \<and> remainingTime (step (now, WatchError w) s) = remainingTime s)"
proof -
  have i: "inv s" unfolding assms(1) by (rule inv_reachable)
  have w: "watches s = [(w, isSharingLocation s)]" "isEmergency s \<or> isSharingLocation s"
    using inv_watch(1,2)[OF i] assms(2) by simp_all
  show ?thesis
  proof (cases "isSharingLocation s")
    case True
    let ?c = "s\<lparr>remainingTime := ''Live tracking paused. Sharing last known location.''\<rparr>"
    have c: "onWatchError w s = ?c" using True by (simp add: onWatchError_def w(1))
    have "commit now s ?c = ?c"
      by (rule commit_nodeps) (simp_all add: locationDeps_def sharingDeps_def gestureDeps_def)
    then show ?thesis using True by (simp add: step_def c)
  next
    case False
    let ?c = "s\<lparr>error := Some ''Live location tracking failed. Sharing last known location.''\<rparr>"
    have c: "onWatchError w s = ?c" using False by (simp add: onWatchError_def w(1))
    have "commit now s ?c = ?c"
      by (rule commit_nodeps) (simp_all add: locationDeps_def sharingDeps_def gestureDeps_def)
    then show ?thesis using False w(2) by (simp add: step_def c)
  qed
qed

text \<open>
  With both episodes active, a watch error surfaces the sharing wording and no
  emergency wording.
\<close>

theorem watch_error_sharing_priority:
  "isEmergency bothActive \<and> isSharingLocation bothActive \<and> locationWatchIdRef bothActive = Some 2
   \<and> error (step (50, WatchError 2) bothActive) = None
   \<and> remainingTime (step (50, WatchError 2) bothActive) = ''Live tracking paused. Sharing last known location.''"
  by code_simp

theorem watch_error_notice_witness:
  "locationWatchIdRef bothActive = Some 2
   \<and> location (step (50, WatchError 2) bothActive) = location bothActive
   \<and> watches (step (50, WatchError 2) bothActive) = [(2, True)]"
  using watch_error_notice[OF bothActive_reach, of 2 50]
  by (simp add: bothActive_eval)

lemma step_stopEmergency_watch:
  assumes "inv s" "isEmergency s"
  shows "watches (step (now, ClickStopEmergency) s)
           = (if isSharingLocation s then [(nextWatchId s, True)] else [])"
    and "locationWatchIdRef (step (now, ClickStopEmergency) s)
           = (if isSharingLocation s then Some (nextWatchId s) else None)"
    and "isSharingLocation (step (now, ClickStopEmergency) s) = isSharingLocation s"
    and "\<not> isEmergency (step (now, ClickStopEmergency) s)"
proof -
  obtain w where w: "locationWatchIdRef s = Some w" "watches s = [(w, isSharingLocation s)]"
    using inv_watch(1,2)[OF assms(1)] assms(2) by auto
  obtain pos where l: "location s = Some pos" using inv_watch(3)[OF assms(1)] assms(2) by auto
  have d: "locationDeps s \<noteq> locationDeps (handleStopEmergency s)"
    using assms(2) by (simp add: locationDeps_def handleStopEmergency_upd)
  show "watches (step (now, ClickStopEmergency) s)
           = (if isSharingLocation s then [(nextWatchId s, True)] else [])"
    using d w l by (simp add: step_def commit_fields commitWatches_def dropWatch_def tracking_def)
       (simp add: handleStopEmergency_upd)
  show "locationWatchIdRef (step (now, ClickStopEmergency) s)
           = (if isSharingLocation s then Some (nextWatchId s) else None)"
    using d w l by (simp add: step_def commit_fields tracking_def) (simp add: handleStopEmergency_upd)
  show "isSharingLocation (step (now, ClickStopEmergency) s) = isSharingLocation s"
    by (simp add: step_def commit_fields handleStopEmergency_upd)
  show "\<not> isEmergency (step (now, ClickStopEmergency) s)"
    by (simp add: step_def commit_fields handleStopEmergency_upd)
qed

lemma step_stopSharing_watch:
  assumes "inv s" "isSharingLocation s"
  shows "watches (step (now, ClickStopSharing) s)
           = (if isEmergency s then [(nextWatchId s, False)] else [])"
    and "locationWatchIdRef (step (now, ClickStopSharing) s)
           = (if isEmergency s then Some (nextWatchId s) else None)"
    and "isEmergency (step (now, ClickStopSharing) s) = isEmergency s"
    and "\<not> isSharingLocation (step (now, ClickStopSharing) s)"
proof -
  obtain w where w: "locationWatchIdRef s = Some w" "watches s = [(w, isSharingLocation s)]"
    using inv_watch(1,2)[OF assms(1)] assms(2) by auto
  obtain pos where l: "location s = Some pos" using inv_watch(3)[OF assms(1)] assms(2) by auto
  have d: "locationDeps s \<noteq> locationDeps (handleStopSharing s)"
    using assms(2) by (simp add: locationDeps_def handleStopSharing_def)
  show "watches (step (now, ClickStopSharing) s)
           = (if isEmergency s then [(nextWatchId s, False)] else [])"
    using d w l by (simp add: step_def commit_fields commitWatches_def dropWatch_def tracking_def)
       (simp add: handleStopSharing_def)
  show "locationWatchIdRef (step (now, ClickStopSharing) s)
           = (if isEmergency s then Some (nextWatchId s) else None)"
    using d w l by (simp add: step_def commit_fields tracking_def) (simp add: handleStopSharing_def)
  show "isEmergency (step (now, ClickStopSharing) s) = isEmergency s"
    by (simp add: step_def commit_fields handleStopSharing_def)
  show "\<not> isSharingLocation (step (now, ClickStopSharing) s)"
    by (simp add: step_def commit_fields handleStopSharing_def)
qed

lemma step_watchFix_live:
  assumes "w \<in> fst ` set (watches s)"
  shows "location (step (now, WatchFix w p) s) = Some p"
  using assms by (simp add: step_def commit_fields onWatchFix_def setLocation_def)

lemma step_watchFix_reregisters:
  assumes "inv s" "locationWatchIdRef s = Some w"
  shows "watches (step (now, WatchFix w p) s) = [(nextWatchId s, isSharingLocation s)]"
proof -
  have w: "watches s = [(w, isSharingLocation s)]" "isEmergency s \<or> isSharingLocation s"
    using inv_watch(1,2)[OF assms(1)] assms(2) by simp_all
  have c: "onWatchFix w p s = setLocation p s" by (simp add: onWatchFix_def w(1))
  have d: "locationDeps s \<noteq> locationDeps (setLocation p s)"
    by (simp add: locationDeps_def setLocation_def)
  show ?thesis
    using d w assms(2)
    by (simp add: step_def c commit_fields commitWatches_def dropWatch_def tracking_def)
       (simp add: setLocation_def)
qed

text \<open>
  Claim C1, as the code has it. In every reachable state at most one position watch is
  live. The watch is not kept across re-renders of the location effect: a fix
  delivered to the live watch cancels it and registers a new one under a new handle,
  and so does stopping one of two active episodes, for the episode that remains; that
  episode stays active and a fix delivered to the new watch becomes the position.
  Stopping both, in either order, leaves no live watch. (While both are active the
  sharing screen is shown, which has the Stop Sharing button only.)
\<close>

theorem shared_watch:
  assumes "s = run tr (init cv mr)"
  shows "length (watches s) \<le> 1
     \<and> (\<forall>w. locationWatchIdRef s = Some w \<longrightarrow>
          w \<noteq> nextWatchId s
        \<and> watches (step (now, WatchFix w p) s) = [(nextWatchId s, isSharingLocation s)])
     \<and> (isEmergency s \<and> isSharingLocation s \<longrightarrow>
          (\<exists>w. watches s = [(w, True)] \<and> w \<noteq> nextWatchId s)
        \<and> watches (step (now, ClickStopSharing) s) = [(nextWatchId s, False)]
        \<and> isEmergency (step (now, ClickStopSharing) s)
        \<and> location (step (now', WatchFix (nextWatchId s) p) (step (now, ClickStopSharing) s)) = Some p
        \<and> watches (step (now', ClickStopEmergency) (step (now, ClickStopSharing) s)) = []
        \<and> watches (step (now, ClickStopEmergency) s) = [(nextWatchId s, True)]
        \<and> isSharingLocation (step (now, ClickStopEmergency) s)
        \<and> location (step (now', WatchFix (nextWatchId s) p) (step (now, ClickStopEmergency) s)) = Some p
        \<and> watches (step (now', ClickStopSharing) (step (now, ClickStopEmergency) s)) = [])"
proof -
  have i: "inv s" unfolding assms(1) by (rule inv_reachable)
  have len: "length (watches s) \<le> 1"
    using inv_watch(1)[OF i] by (simp split: option.splits)
  have rereg: "\<forall>w. locationWatchIdRef s = Some w \<longrightarrow>
          w \<noteq> nextWatchId s
        \<and> watches (step (now, WatchFix w p) s) = [(nextWatchId s, isSharingLocation s)]"
    using step_watchFix_reregisters[OF i] inv_watch(4)[OF i] by fastforce
  {
    assume b: "isEmergency s" "isSharingLocation s"
    obtain w where w: "locationWatchIdRef s = Some w" "watches s = [(w, True)]"
      using inv_watch(1,2)[OF i] b by auto
    have "w \<noteq> nextWatchId s" using inv_watch(4)[OF i w(1)] by simp
    note e = step_stopEmergency_watch[OF i b(1), of now]
    note h = step_stopSharing_watch[OF i b(2), of now]
    have ie: "inv (step (now, ClickStopEmergency) s)" and ih: "inv (step (now, ClickStopSharing) s)"
      using i by (simp_all add: inv_step)
    have "watches (step (now', ClickStopSharing) (step (now, ClickStopEmergency) s)) = []"
      using step_stopSharing_watch(1)[OF ie, of now'] e b by simp
    moreover have "watches (step (now', ClickStopEmergency) (step (now, ClickStopSharing) s)) = []"
      using step_stopEmergency_watch(1)[OF ih, of now'] h b by simp
    moreover have "location (step (now', WatchFix (nextWatchId s) p) (step (now, ClickStopEmergency) s)) = Some p"
      using e b by (intro step_watchFix_live) simp
    moreover have "location (step (now', WatchFix (nextWatchId s) p) (step (now, ClickStopSharing) s)) = Some p"
      using h b by (intro step_watchFix_live) simp
    ultimately have "(\<exists>w. watches s = [(w, True)] \<and> w \<noteq> nextWatchId s)
        \<and> watches (step (now, ClickStopSharing) s) = [(nextWatchId s, False)]
        \<and> isEmergency (step (now, ClickStopSharing) s)
        \<and> location (step (now', WatchFix (nextWatchId s) p) (step (now, ClickStopSharing) s)) = Some p
        \<and> watches (step (now', ClickStopEmergency) (step (now, ClickStopSharing) s)) = []
        \<and> watches (step (now, ClickStopEmergency) s) = [(nextWatchId s, True)]
        \<and> isSharingLocation (step (now, ClickStopEmergency) s)
        \<and> location (step (now', WatchFix (nextWatchId s) p) (step (now, ClickStopEmergency) s)) = Some p
        \<and> watches (step (now', ClickStopSharing) (step (now, ClickStopEmergency) s)) = []"
      using e h b w \<open>w \<noteq> nextWatchId s\<close> by simp
  }
  with len rereg show ?thesis by blast
qed

text \<open>
  With both episodes active, which the user reaches through the tools page, pressing
  Stop Sharing cancels the watch that was live although the emergency goes on: watch 2
  is no longer registered and watch 3 has taken its place.
\<close>

theorem stop_cancels_watch:
  "feasible (bothActiveTrace @ [(50, ClickStopSharing)]) (init True True)
   \<and> sorted (map fst (bothActiveTrace @ [(50, ClickStopSharing)]))
   \<and> isEmergency bothActive \<and> isSharingLocation bothActive
   \<and> map fst (watches bothActive) = [2]
   \<and> isEmergency (step (50, ClickStopSharing) bothActive)
   \<and> map fst (watches (step (50, ClickStopSharing) bothActive)) = [3]"
  by code_simp

theorem shared_watch_witness:
  "isEmergency bothActive \<and> isSharingLocation bothActive
   \<and> length (watches bothActive) \<le> 1
   \<and> watches (step (50, WatchFix 2 (Position 3 4)) bothActive) = [(3, True)]
   \<and> watches (step (50, ClickStopSharing) bothActive) = [(3, False)]
   \<and> watches (step (60, ClickStopEmergency) (step (50, ClickStopSharing) bothActive)) = []"
  using shared_watch[OF bothActive_reach, where now = 50 and now' = 60 and p = "Position 3 4"]
  by (simp add: bothActive_eval)

subsection \<open>The sharing session\<close>

lemma handleStartSharing_finite:
  assumes "location s \<noteq> None" "d \<noteq> 0"
  shows "handleStartSharing (Some d) now s =
     s\<lparr>showSharingOptions := False, isSharingLocation := True, sharingEndTime := Some (now + d * 60 * 1000)\<rparr>"
  using assms by (cases "location s") (simp_all add: handleStartSharing_def)


lemma inv_idle:
  assumes "inv s" "\<not> isSharingLocation s"
  shows "timers s = []" "remainingTime s = []" "sharingEndTime s = None"
  using assms by (auto simp: inv_def timerInv_def textInv_def ticking_def)

lemma start_finite_state:
  assumes "location s \<noteq> None" "d \<noteq> 0"
  shows "isSharingLocation (step (now, ClickStartSharing (Some d)) s)"
    and "sharingEndTime (step (now, ClickStartSharing (Some d)) s) = Some (now + d * 60 * 1000)"
    and "remainingTime (step (now, ClickStartSharing (Some d)) s) = remainingTime s"
  by (simp_all add: step_def commit_fields handleStartSharing_finite[OF assms])

lemma start_finite:
  assumes "inv s" "\<not> isSharingLocation s" "location s \<noteq> None" "d \<noteq> 0"
  shows "isSharingLocation (step (now, ClickStartSharing (Some d)) s)"
    and "sharingEndTime (step (now, ClickStartSharing (Some d)) s) = Some (now + d * 60 * 1000)"
    and "remainingTime (step (now, ClickStartSharing (Some d)) s) = remainingTime s"
    and "now + d * 60 * 1000 \<noteq> 0 \<Longrightarrow> timers (step (now, ClickStartSharing (Some d)) s)
           = [Timer (nextTimerId s) (now + 1000) (SharingTickCb (now + d * 60 * 1000))]"
proof -
  note c = handleStartSharing_finite[OF assms(3,4), of now]
  note idle = inv_idle[OF assms(1,2)]
  show "isSharingLocation (step (now, ClickStartSharing (Some d)) s)"
    by (simp add: step_def commit_fields c)
  show "sharingEndTime (step (now, ClickStartSharing (Some d)) s) = Some (now + d * 60 * 1000)"
    by (simp add: step_def commit_fields c)
  show "remainingTime (step (now, ClickStartSharing (Some d)) s) = remainingTime s"
    by (simp add: step_def commit_fields c)
  show "timers (step (now, ClickStartSharing (Some d)) s)
           = [Timer (nextTimerId s) (now + 1000) (SharingTickCb (now + d * 60 * 1000))]"
    if "now + d * 60 * 1000 \<noteq> 0"
    using that idle assms(2)
    by (simp add: step_def commit_fields commitTimers_def c sharingDeps_def ticking_def dropTimer_tick Let_def)
qed

lemma tick_pending:
  assumes "inv s" "isSharingLocation s" "sharingEndTime s = Some e" "e \<noteq> 0"
  obtains h d where "timers s = [Timer h d (SharingTickCb e)]" "locationSharingTimerRef s = Some h"
  using assms by (auto simp: inv_def timerInv_def ticking_def)

lemma tick_expires:
  assumes "inv s" "isSharingLocation s" "timers s = [Timer h d (SharingTickCb e)]"
    "locationSharingTimerRef s = Some h" "d \<le> now" "e \<le> now"
  shows "\<not> isSharingLocation (step (now, TimerFires h) s)"
    and "sharingEndTime (step (now, TimerFires h) s) = None"
    and "remainingTime (step (now, TimerFires h) s) = []"
    and "timers (step (now, TimerFires h) s) = []"
proof -
  let ?c = "handleStopSharing (s\<lparr>timers := [Timer h (d + 1000) (SharingTickCb e)]\<rparr>)"
  have f: "fireTimer now h s = ?c"
    using assms(5,6) by (simp add: fireTimer_tick[OF assms(3)] sharingTick_def)
  have c: "?c = s\<lparr>timers := [Timer h (d + 1000) (SharingTickCb e)], isSharingLocation := False,
      sharingEndTime := None, remainingTime := []\<rparr>"
    by (simp add: handleStopSharing_def)
  show "\<not> isSharingLocation (step (now, TimerFires h) s)"
    by (simp add: step_def f commit_fields) (simp add: c)
  show "sharingEndTime (step (now, TimerFires h) s) = None"
    by (simp add: step_def f commit_fields) (simp add: c)
  show "remainingTime (step (now, TimerFires h) s) = []"
    by (simp add: step_def f commit_fields) (simp add: c)
  show "timers (step (now, TimerFires h) s) = []"
    using assms(2,4)
    by (simp add: step_def f commit_fields commitTimers_def Let_def)
       (simp add: c sharingDeps_def ticking_def dropTimer_tick)
qed

lemma tick_counts:
  assumes "timers s = [Timer h d (SharingTickCb e)]" "d \<le> now" "now < e"
  shows "remainingTime (step (now, TimerFires h) s) = formatRemaining (nat ((e - now) div 1000))"
proof -
  let ?c = "s\<lparr>timers := [Timer h (d + 1000) (SharingTickCb e)],
               remainingTime := formatRemaining (nat ((e - now) div 1000))\<rparr>"
  have f: "fireTimer now h s = ?c"
    using assms(2,3) by (simp add: fireTimer_tick[OF assms(1)] sharingTick_def)
  show ?thesis
    by (simp add: step_def f commit_fields sharingDeps_def)
qed

lemma run_append: "run (a @ b) s = run b (run a s)"
  by (induction a arbitrary: s) simp_all

lemma inv_after:
  assumes "s0 = run tr (init cv mr)" "s = run tr' (step te s0)"
  shows "inv s"
  unfolding assms by (intro inv_run inv_step inv_reachable)

text \<open>
  Claim C10. Starting a sharing session with a duration (not zero) from a reachable state
  without a session leaves the status text as it was, which is empty: neither
  \<open>handleStartSharing\<close> nor the countdown effect writes it. The countdown interval is
  first due 1000 ms after the start, and only its callback writes the remaining time.
\<close>

theorem start_leaves_text:
  assumes "s = run tr (init cv mr)" and "\<not> isSharingLocation s" and "location s \<noteq> None" and "d \<noteq> 0"
  shows "remainingTime (step (now, ClickStartSharing (Some d)) s) = remainingTime s
     \<and> remainingTime (step (now, ClickStartSharing (Some d)) s) = []
     \<and> (now + d * 60 * 1000 \<noteq> 0 \<longrightarrow>
          timers (step (now, ClickStartSharing (Some d)) s)
            = [Timer (nextTimerId s) (now + 1000) (SharingTickCb (now + d * 60 * 1000))]
        \<and> (\<forall>t. now + 1000 \<le> t \<and> t < now + d * 60 * 1000 \<longrightarrow>
              remainingTime (step (t, TimerFires (nextTimerId s)) (step (now, ClickStartSharing (Some d)) s))
                = formatRemaining (nat ((now + d * 60 * 1000 - t) div 1000))))"
proof -
  have i: "inv s" unfolding assms(1) by (rule inv_reachable)
  note st = start_finite[OF i assms(2,3,4), of now]
  have "remainingTime s = []" using inv_idle(2)[OF i assms(2)] .
  moreover have "remainingTime (step (t, TimerFires (nextTimerId s)) (step (now, ClickStartSharing (Some d)) s))
                = formatRemaining (nat ((now + d * 60 * 1000 - t) div 1000))"
    if "now + d * 60 * 1000 \<noteq> 0" "now + 1000 \<le> t" "t < now + d * 60 * 1000" for t
    using tick_counts[OF st(4)[OF that(1)] that(2,3)] .
  ultimately show ?thesis using st by simp
qed

text \<open>
  Claim C6. A session started with a duration \<open>d\<close> at time \<open>now0\<close> is active with end time
  \<open>now0 + d * 60 * 1000\<close>. At any later point of any run at which this session is still
  active, its countdown interval is pending, and when the interval fires at or after the
  end time the session is idle again, with the end time and the status text cleared and
  the interval cancelled, without any user event. The test \<open>if (durationInMinutes)\<close>
  and the guard of the countdown effect read a duration 0 and an end time 0 as absent;
  every positive duration started at a non-negative clock value has neither.
\<close>

theorem sharing_auto_expiry:
  assumes "s0 = run tr (init cv mr)" and "location s0 \<noteq> None" and "d \<noteq> 0"
    and "now0 + d * 60 * 1000 \<noteq> 0"
    and "s = run tr' (step (now0, ClickStartSharing (Some d)) s0)"
    and "isSharingLocation s" and "sharingEndTime s = Some (now0 + d * 60 * 1000)"
  shows "isSharingLocation (step (now0, ClickStartSharing (Some d)) s0)
     \<and> sharingEndTime (step (now0, ClickStartSharing (Some d)) s0) = Some (now0 + d * 60 * 1000)
     \<and> (\<exists>h due. timers s = [Timer h due (SharingTickCb (now0 + d * 60 * 1000))]
          \<and> (\<forall>now. due \<le> now \<and> now0 + d * 60 * 1000 \<le> now \<longrightarrow>
                \<not> isSharingLocation (step (now, TimerFires h) s)
              \<and> sharingEndTime (step (now, TimerFires h) s) = None
              \<and> remainingTime (step (now, TimerFires h) s) = []
              \<and> timers (step (now, TimerFires h) s) = []))"
proof -
  have i: "inv s" using assms(1,5) by (rule inv_after)
  obtain h due where t: "timers s = [Timer h due (SharingTickCb (now0 + d * 60 * 1000))]"
      "locationSharingTimerRef s = Some h"
    using tick_pending[OF i assms(6,7,4)] by blast
  show ?thesis
    using start_finite_state(1,2)[OF assms(2,3), of now0] t(1) tick_expires[OF i assms(6) t]
    by simp
qed

lemma located_eval:
  "\<not> isSharingLocation located" "location located \<noteq> None" "nextTimerId located = 1" "remainingTime located = []"
  by code_simp+

lemma sharing30_eval:
  "isSharingLocation sharing30" "sharingEndTime sharing30 = Some 1800010"
  "timers sharing30 = [Timer 1 2010 (SharingTickCb 1800010)]"
  by code_simp+

theorem sharing_auto_expiry_witness:
  "location located \<noteq> None \<and> isSharingLocation sharing30 \<and> sharingEndTime sharing30 = Some (10 + 30 * 60 * 1000)
   \<and> \<not> isSharingLocation (step (1860010, TimerFires 1) sharing30)
   \<and> remainingTime (step (1860010, TimerFires 1) sharing30) = []"
proof -
  have a: "located = run locatedTrace (init True True)"
    by (rule located_def)
  have b: "sharing30 = run [(1010, TimerFires 1)] (step (10, ClickStartSharing (Some 30)) located)"
    by (rule sharing30_def)
  have c: "sharingEndTime sharing30 = Some (10 + 30 * 60 * 1000)" by (simp add: sharing30_eval)
  show ?thesis
    using sharing_auto_expiry[OF a located_eval(2) _ _ b sharing30_eval(1) c]
    by (auto simp: sharing30_eval located_eval)
qed

theorem start_leaves_text_witness:
  "\<not> isSharingLocation located \<and> location located \<noteq> None
   \<and> remainingTime (step (10, ClickStartSharing (Some 30)) located) = []
   \<and> remainingTime (step (1010, TimerFires 1) (step (10, ClickStartSharing (Some 30)) located)) = ''29:59 remaining''"
proof -
  have a: "located = run locatedTrace (init True True)"
    by (rule located_def)
  have f: "formatRemaining 1799 = ''29:59 remaining''" by code_simp
  show ?thesis
    using start_leaves_text[OF a located_eval(1,2), of 30 10]
    by (simp add: located_eval f)
qed







subsection \<open>The gesture recognizer\<close>

lemma mod4_step: "((k + b) mod 4 + n) mod 4 = (k + (b + n)) mod (4::nat)"
  by presburger

lemma div4_step: "((k + b) mod 4 + n) div 4 + (k + b) div 4 = (k + (b + n)) div (4::nat)"
  by presburger

lemma key_step:
  assumes "inv s" "\<not> inert s" "keyEvent e"
  shows "\<not> inert (step (now, e) s)"
    and "volumeUpCount (step (now, e) s) = (volumeUpCount s + (if isTap e then 1 else 0)) mod 4"
    and "classified (step (now, e) s)
           = replicate ((volumeUpCount s + (if isTap e then 1 else 0)) div 4) QuadTap @ classified s"
    and "pendingFix (step (now, e) s) = pendingFix s + (volumeUpCount s + (if isTap e then 1 else 0)) div 4"
    and "sirenPlaying (step (now, e) s) = sirenPlaying s"
    and "vibrating (step (now, e) s) = vibrating s"
proof -
  have c4: "volumeUpCount s < 4" using assms(1) by (simp add: inv_def gestureInv_def)
  have t: "timers s = []" using inv_not_inert(1)[OF assms(1,2)] .
  have same: "\<not> inert s' \<and> volumeUpCount s' = (volumeUpCount s + 0) mod 4
      \<and> classified s' = replicate ((volumeUpCount s + 0) div 4) QuadTap @ classified s
      \<and> pendingFix s' = pendingFix s + (volumeUpCount s + 0) div 4
      \<and> sirenPlaying s' = sirenPlaying s \<and> vibrating s' = vibrating s" if "s' = s" for s'
    using that c4 assms(2) by simp
  have "\<not> inert (step (now, e) s)
     \<and> volumeUpCount (step (now, e) s) = (volumeUpCount s + (if isTap e then 1 else 0)) mod 4
     \<and> classified (step (now, e) s)
           = replicate ((volumeUpCount s + (if isTap e then 1 else 0)) div 4) QuadTap @ classified s
     \<and> pendingFix (step (now, e) s) = pendingFix s + (volumeUpCount s + (if isTap e then 1 else 0)) div 4
     \<and> sirenPlaying (step (now, e) s) = sirenPlaying s \<and> vibrating (step (now, e) s) = vibrating s"
  proof (cases e)
    case (KeyDown r)
    show ?thesis
    proof (cases r)
      case True
      then show ?thesis using same[OF step_KeyDown_noop[of s r now]] KeyDown by simp
    next
      case False
      then have e: "e = KeyDown False" using KeyDown by simp
      show ?thesis
      proof (cases "4 \<le> volumeUpCount s + 1")
        case True
        note c = handleKeyDown_quad[OF assms(2) True, of now]
        have "volumeUpCount s = 3" using True c4 by simp
        then show ?thesis using assms(2) unfolding e
          by (simp add: step_def commit_fields commit_preds) (simp add: c inert_def)
      next
        case less: False
        note c = handleKeyDown_tap[OF assms(2) less, of now]
        show ?thesis using assms(2) less unfolding e
          by (simp add: step_def commit_fields commit_preds) (simp add: c inert_def)
      qed
    qed
  next
    case KeyUp
    have "step (now, KeyUp) s = s"
      by (simp add: step_def handleKeyUp_inv[OF assms(1)] commit_nodeps)
    then show ?thesis using same KeyUp by simp
  next
    case (TimerFires h)
    have "step (now, TimerFires h) s = s"
      by (simp add: step_def fireTimer_idle[OF t] commit_nodeps)
    then show ?thesis using same TimerFires by simp
  qed (use assms(3) in simp_all)
  then show "\<not> inert (step (now, e) s)"
    and "volumeUpCount (step (now, e) s) = (volumeUpCount s + (if isTap e then 1 else 0)) mod 4"
    and "classified (step (now, e) s)
           = replicate ((volumeUpCount s + (if isTap e then 1 else 0)) div 4) QuadTap @ classified s"
    and "pendingFix (step (now, e) s) = pendingFix s + (volumeUpCount s + (if isTap e then 1 else 0)) div 4"
    and "sirenPlaying (step (now, e) s) = sirenPlaying s"
    and "vibrating (step (now, e) s) = vibrating s"
    by simp_all
qed

lemma key_run:
  assumes "inv s" "\<not> inert s" "list_all (\<lambda>te. keyEvent (snd te)) tr"
  shows "\<not> inert (run tr s)
     \<and> volumeUpCount (run tr s) = (volumeUpCount s + downs tr) mod 4
     \<and> classified (run tr s) = replicate ((volumeUpCount s + downs tr) div 4) QuadTap @ classified s
     \<and> pendingFix (run tr s) = pendingFix s + (volumeUpCount s + downs tr) div 4
     \<and> sirenPlaying (run tr s) = sirenPlaying s \<and> vibrating (run tr s) = vibrating s"
  using assms
proof (induction tr arbitrary: s)
  case Nil
  then have "volumeUpCount s < 4" by (simp add: inv_def gestureInv_def)
  with Nil show ?case by (simp add: downs_def)
next
  case (Cons te tr)
  obtain now e where te: "te = (now, e)" by (cases te)
  have ke: "keyEvent e" and kr: "list_all (\<lambda>te. keyEvent (snd te)) tr"
    using Cons.prems(3) te by simp_all
  note st = key_step[OF Cons.prems(1,2) ke, of now]
  have i': "inv (step (now, e) s)" using Cons.prems(1) by (rule inv_step)
  note ih = Cons.IH[OF i' st(1) kr]
  let ?k = "volumeUpCount s" and ?b = "(if isTap e then 1 else 0 :: nat)" and ?n = "downs tr"
  let ?r = "run ((now, e) # tr) s"
  have d: "downs ((now, e) # tr) = ?b + ?n" by (simp add: downs_def)
  have m: "((?k + ?b) mod 4 + ?n) mod 4 = (?k + (?b + ?n)) mod 4"
    by (rule mod4_step)
  have q: "((?k + ?b) mod 4 + ?n) div 4 + (?k + ?b) div 4 = (?k + (?b + ?n)) div 4"
    by (rule div4_step)
  have "classified ?r
      = replicate (((?k + ?b) mod 4 + ?n) div 4) QuadTap @ replicate ((?k + ?b) div 4) QuadTap @ classified s"
    using ih st by simp
  also have "\<dots> = replicate (((?k + ?b) mod 4 + ?n) div 4 + (?k + ?b) div 4) QuadTap @ classified s"
    by (simp add: replicate_add)
  finally have cl: "classified ?r = replicate ((?k + downs ((now, e) # tr)) div 4) QuadTap @ classified s"
    unfolding q d .
  have "volumeUpCount ?r = ((?k + ?b) mod 4 + ?n) mod 4"
    using ih st by simp
  then have vc: "volumeUpCount ?r = (?k + downs ((now, e) # tr)) mod 4"
    unfolding m d .
  have "pendingFix ?r = pendingFix s + (((?k + ?b) mod 4 + ?n) div 4 + (?k + ?b) div 4)"
    using ih st(2,4) by simp
  then have pf: "pendingFix ?r = pendingFix s + (?k + downs ((now, e) # tr)) div 4"
    unfolding q d .
  have sv: "sirenPlaying ?r = sirenPlaying s" "vibrating ?r = vibrating s"
    using ih st(5,6) by simp_all
  have "\<not> inert ?r" using ih by simp
  then show ?case unfolding te using cl vc pf sv by blast
qed

text \<open>
  Claim C3, as the code has it. Let no tap be counted and the recognizer be neither
  in an emergency nor behind a dialog, and let a sequence of key events of the gesture
  key follow in which every key-down that is not a repeat comes at most 1500 ms after
  the previous one and every one of them that is followed by another is released less
  than 1000 ms after it went down. Then the quad-tap classification fires once for
  every fourth such key-down, not once for the sequence: each firing is a discreet
  activation, which issues one position request and starts neither siren nor
  vibration, and no emergency is entered before a request is answered. The tap count
  is the number of such key-downs modulo 4. With four to seven of them the
  classification fires exactly once, and with exactly four the count is back at 0.
\<close>

theorem quad_tap_every_fourth:
  assumes "s = run tr0 (init cv mr)" and "\<not> inert s" and "volumeUpCount s = 0"
    and "list_all (\<lambda>te. keyEvent (snd te)) tr"
    and "spaced (map fst (filter (\<lambda>te. isTap (snd te)) tr))" and "released tr"
  shows "classified (run tr s) = replicate (downs tr div 4) QuadTap @ classified s
     \<and> pendingFix (run tr s) = pendingFix s + downs tr div 4
     \<and> sirenPlaying (run tr s) = sirenPlaying s \<and> vibrating (run tr s) = vibrating s
     \<and> \<not> isEmergency (run tr s)
     \<and> volumeUpCount (run tr s) = downs tr mod 4
     \<and> (4 \<le> downs tr \<and> downs tr < 8 \<longrightarrow>
          classified (run tr s) = QuadTap # classified s \<and> pendingFix (run tr s) = pendingFix s + 1)
     \<and> (downs tr = 4 \<longrightarrow> volumeUpCount (run tr s) = 0)"
proof -
  have i: "inv s" unfolding assms(1) by (rule inv_reachable)
  note k = key_run[OF i assms(2,4)]
  have e: "\<not> isEmergency (run tr s)" using k by (simp add: inert_def)
  have one: "downs tr div 4 = 1" if "4 \<le> downs tr \<and> downs tr < 8"
    using that by arith
  have zero: "downs tr mod 4 = 0" if "downs tr = 4"
    using that by simp
  show ?thesis using k e assms(3) one zero by simp
qed

text \<open>
  Eight presses, 100 ms apart and each released after 50 ms, fire the quad-tap
  classification twice: the position request of the first discreet activation is
  still pending when the second one issues another.
\<close>

theorem quad_tap_fires_twice:
  "feasible taps8 (init True True) \<and> sorted (map fst taps8)
   \<and> spaced (map fst (filter (\<lambda>te. isTap (snd te)) taps8)) \<and> released taps8 \<and> downs taps8 = 8
   \<and> volumeUpCount (init True True) = 0 \<and> pendingFix (init True True) = 0
   \<and> classified (run taps8 (init True True)) = [QuadTap, QuadTap]
   \<and> pendingFix (run taps8 (init True True)) = 2"
  by code_simp

theorem quad_tap_every_fourth_witness:
  "\<not> inert (init True True) \<and> volumeUpCount (init True True) = 0
   \<and> list_all (\<lambda>te. keyEvent (snd te)) taps4 \<and> downs taps4 = 4
   \<and> spaced (map fst (filter (\<lambda>te. isTap (snd te)) taps4)) \<and> released taps4
   \<and> classified (run taps4 (init True True)) = [QuadTap]
   \<and> pendingFix (run taps4 (init True True)) = 1
   \<and> \<not> sirenPlaying (run taps4 (init True True))
   \<and> volumeUpCount (run taps4 (init True True)) = 0"
proof -
  have a: "init True True = run [] (init True True)" by simp
  have b: "\<not> inert (init True True)" "volumeUpCount (init True True) = 0" "classified (init True True) = []"
    "pendingFix (init True True) = 0" "\<not> sirenPlaying (init True True)"
    by (simp_all add: init_def inert_def)
  have c: "list_all (\<lambda>te. keyEvent (snd te)) taps4" "downs taps4 = 4"
    "spaced (map fst (filter (\<lambda>te. isTap (snd te)) taps4))" "released taps4"
    by (simp_all add: taps4_def taps3_def downs_def)
  show ?thesis
    using quad_tap_every_fourth[OF a b(1,2) c(1,3,4)] b c by simp
qed

text \<open>
  Claim C4. When the fourth tap arrives, the handler itself cancels the long-press
  timer it has just armed (no timer is pending when it returns), the quad-tap
  classification fires, and in no continuation of the run does the long-press callback
  run or a long-press timer stay pending.
\<close>

theorem quad_tap_preempts_long_press:
  assumes "s = run tr0 (init cv mr)" and "\<not> inert s" and "volumeUpCount s = 3"
  shows "timers (handleKeyDown False now s) = []
     \<and> longPressTimeoutRef (handleKeyDown False now s) = Some (nextTimerId s)
     \<and> classified (step (now, KeyDown False) s) = QuadTap # classified s
     \<and> volumeUpCount (step (now, KeyDown False) s) = 0
     \<and> LongPress \<notin> set (classified (run tr (step (now, KeyDown False) s)))
     \<and> (\<forall>t \<in> set (timers (run tr (step (now, KeyDown False) s))). \<forall>em. cb t \<noteq> LongPressCb em)"
proof -
  have i: "inv s" unfolding assms(1) by (rule inv_reachable)
  have q: "4 \<le> volumeUpCount s + 1" using assms(3) by simp
  note c = handleKeyDown_quad[OF assms(2) q, of now]
  note ni = inv_not_inert[OF i assms(2)]
  have fr: "freshInv s" using i by (simp add: inv_def)
  have tc: "timers (handleKeyDown False now s) = []"
    using ni fr by (cases "volumeUpTimeoutRef s") (simp_all add: c dropTimer_def freshInv_def)
  have i2: "inv (run tr (step (now, KeyDown False) s))"
    using i by (intro inv_run inv_step)
  have "LongPress \<notin> set (classified (run tr (step (now, KeyDown False) s)))"
    using i2 by (simp add: inv_def gestureInv_def)
  moreover have "\<forall>t \<in> set (timers (run tr (step (now, KeyDown False) s))). \<forall>em. cb t \<noteq> LongPressCb em"
    using i2 by (cases "ticking (run tr (step (now, KeyDown False) s))") (auto simp: inv_def timerInv_def)
  moreover have "classified (step (now, KeyDown False) s) = QuadTap # classified s"
    "volumeUpCount (step (now, KeyDown False) s) = 0"
    using key_step(2,3)[OF i assms(2), of "KeyDown False" now] assms(3) by simp_all
  ultimately show ?thesis using tc by (simp add: c)
qed

lemma taps3_eval:
  "\<not> inert (run taps3 (init True True))" "volumeUpCount (run taps3 (init True True)) = 3"
  "nextTimerId (run taps3 (init True True)) = 7" "classified (run taps3 (init True True)) = []"
  by code_simp+

theorem quad_tap_preempts_long_press_witness:
  "\<not> inert (run taps3 (init True True)) \<and> volumeUpCount (run taps3 (init True True)) = 3
   \<and> timers (handleKeyDown False 300 (run taps3 (init True True))) = []
   \<and> longPressTimeoutRef (handleKeyDown False 300 (run taps3 (init True True))) = Some 7
   \<and> classified (step (300, KeyDown False) (run taps3 (init True True))) = [QuadTap]
   \<and> LongPress \<notin> set (classified (run [(350, KeyUp), (1300, TimerFires 7)] (step (300, KeyDown False) (run taps3 (init True True)))))"
  using quad_tap_preempts_long_press[OF refl taps3_eval(1,2), of 300 "[(350, KeyUp), (1300, TimerFires 7)]"] taps3_eval
  by simp

end
